theory Spec2Isabelle
  imports Complex_Main "HOL-Library.Sublist"
begin

section \<open>Python strings\<close>

text \<open>
  A Python \<open>str\<close> is modelled as a \<open>string\<close> whose characters are the code points
  below 256. The character classes below are those of Python 3 on that range.
\<close>

abbreviation LF :: char where "LF \<equiv> CHR 0x0A"
abbreviation CR :: char where "CR \<equiv> CHR 0x0D"

text \<open>\<open>str.isspace\<close> on one character; it is also the class \<open>\s\<close> of \<open>re\<close>.\<close>

definition is_space :: "char \<Rightarrow> bool" where
  "is_space c = (c \<in> set [CHR 0x09, CHR 0x0A, CHR 0x0B, CHR 0x0C, CHR 0x0D,
                            CHR 0x1C, CHR 0x1D, CHR 0x1E, CHR 0x1F, CHR 0x20,
                            CHR 0x85, CHR 0xA0])"

text \<open>The line boundaries of \<open>str.splitlines\<close>.\<close>

definition is_linebreak :: "char \<Rightarrow> bool" where
  "is_linebreak c = (c \<in> set [CHR 0x0A, CHR 0x0B, CHR 0x0C, CHR 0x0D,
                                CHR 0x1C, CHR 0x1D, CHR 0x1E, CHR 0x85])"

definition lstrip :: "string \<Rightarrow> string" where
  "lstrip s = dropWhile is_space s"

definition rstrip :: "string \<Rightarrow> string" where
  "rstrip s = rev (dropWhile is_space (rev s))"

definition strip :: "string \<Rightarrow> string" where
  "strip s = rstrip (lstrip s)"

definition startswith :: "string \<Rightarrow> string \<Rightarrow> bool" where
  "startswith s p = prefix p s"

definition endswith :: "string \<Rightarrow> string \<Rightarrow> bool" where
  "endswith s p = suffix p s"

text \<open>\<open>s.split(sep)\<close> for a separator of one character.\<close>

fun split_from :: "string \<Rightarrow> char \<Rightarrow> string \<Rightarrow> string list" where
  "split_from cur sep [] = [cur]"
| "split_from cur sep (c # cs) =
     (if c = sep then cur # split_from [] sep cs else split_from (cur @ [c]) sep cs)"

definition split_char :: "char \<Rightarrow> string \<Rightarrow> string list" where
  "split_char sep s = split_from [] sep s"

section \<open>MarkdownProcessor\<close>

subsection \<open>extract_title\<close>

fun scan_title :: "string list \<Rightarrow> string" where
  "scan_title [] = ''Untitled''"
| "scan_title (line # rest) =
     (if startswith line ''# '' then strip (drop 2 line)
      else if startswith line ''title:'' then strip (drop 6 line)
      else scan_title rest)"

definition extract_title :: "string \<Rightarrow> string" where
  "extract_title content = scan_title (take 10 (split_char LF content))"

subsection \<open>extract_description\<close>

text \<open>The inner loop over \<open>lines[i+1 : min(i+5, len(lines))]\<close>.\<close>

fun first_paragraph :: "string list \<Rightarrow> string option" where
  "first_paragraph [] = None"
| "first_paragraph (l # ls) =
     (if strip l \<noteq> [] \<and> \<not> startswith l ''#'' then Some (take 200 (strip l) @ ''...'')
      else first_paragraph ls)"

text \<open>The outer loop at index \<open>i\<close>; the argument is \<open>lines[i:]\<close>.\<close>

fun scan_description :: "nat \<Rightarrow> string list \<Rightarrow> string" where
  "scan_description i [] = []"
| "scan_description i (line # rest) =
     (if 20 \<le> i then []
      else if startswith line ''description:'' then strip (drop 12 line)
      else if startswith line ''## '' \<and> 0 < i then
        (case first_paragraph (take 4 rest) of
           Some d \<Rightarrow> d
         | None \<Rightarrow> scan_description (Suc i) rest)
      else scan_description (Suc i) rest)"

definition extract_description :: "string \<Rightarrow> string" where
  "extract_description content = scan_description 0 (split_char LF content)"

subsection \<open>clean_markdown\<close>

text \<open>The text after the first occurrence of a non-empty separator, if there is one.\<close>

fun after_sep :: "string \<Rightarrow> string \<Rightarrow> string option" where
  "after_sep sep [] = None"
| "after_sep sep (c # cs) =
     (if prefix sep (c # cs) then Some (drop (length sep) (c # cs)) else after_sep sep cs)"

text \<open>
  \<open>content.split('---', 2)\<close> on a content that starts with \<open>---\<close> has three parts
  exactly when a second \<open>---\<close> follows the first; the third part is what follows it.
\<close>

definition remove_frontmatter :: "string \<Rightarrow> string" where
  "remove_frontmatter content =
     (if startswith content ''---'' then
        (case after_sep ''---'' (drop 3 content) of
           Some part2 \<Rightarrow> part2
         | None \<Rightarrow> content)
      else content)"

text \<open>
  \<open>re.sub(r'\n\s*\n\s*\n', '\n\n', content)\<close>: a match starts at a newline whose
  following run of whitespace holds two more newlines, and ends with the last newline
  of that run.
\<close>

function collapse_blank :: "string \<Rightarrow> string" where
  "collapse_blank [] = []"
| "collapse_blank (c # cs) =
     (let ws = takeWhile is_space cs in
      if c = LF \<and> 2 \<le> length (filter (\<lambda>x. x = LF) ws)
      then [LF, LF] @
           collapse_blank (drop (length ws - length (takeWhile (\<lambda>x. x \<noteq> LF) (rev ws))) cs)
      else c # collapse_blank cs)"
  by pat_completeness auto
termination
  by (relation "measure length") auto

definition clean_markdown :: "string \<Rightarrow> string" where
  "clean_markdown content = strip (collapse_blank (remove_frontmatter content))"

subsection \<open>chunk_markdown\<close>

text \<open>\<open>str.splitlines\<close>: a carriage return followed by a line feed is one boundary.\<close>

function splitlines_from :: "string \<Rightarrow> string \<Rightarrow> string list" where
  "splitlines_from cur [] = (if cur = [] then [] else [cur])"
| "splitlines_from cur (c # cs) =
     (if is_linebreak c
      then cur # splitlines_from [] (if c = CR \<and> startswith cs [LF] then tl cs else cs)
      else splitlines_from (cur @ [c]) cs)"
  by pat_completeness auto
termination
  by (relation "measure (\<lambda>(cur, s). length s)") auto

definition splitlines :: "string \<Rightarrow> string list" where
  "splitlines s = splitlines_from [] s"

fun join :: "string \<Rightarrow> string list \<Rightarrow> string" where
  "join sep [] = []"
| "join sep [x] = x"
| "join sep (x # y # ys) = x @ sep @ join sep (y # ys)"

record chunk =
  heading :: string
  markdown :: string

record chunker =
  chunks :: "chunk list"
  buf :: "string list"
  current_h :: "string option"
  in_code :: bool

text \<open>\<open>ln.strip().startswith("```")\<close>\<close>

definition is_fence :: "string \<Rightarrow> bool" where
  "is_fence line = startswith (strip line) ''```''"

text \<open>\<open>re.match(r"^#{1,3}\s", ln)\<close>\<close>

definition heading_match :: "string \<Rightarrow> bool" where
  "heading_match line =
     list_ex (\<lambda>k. startswith line (replicate k (CHR ''#'')) \<and> k < length line \<and> is_space (line ! k))
       [1, 2, 3]"

text \<open>
  \<open>re.sub(r"^#{1,3}\s+", "", ln)\<close>: the pattern matches at the start of the line only,
  the hashes and the whitespace after them are both taken greedily.
\<close>

definition sub_heading :: "string \<Rightarrow> string" where
  "sub_heading line =
     (if heading_match line
      then dropWhile is_space (dropWhile (\<lambda>c. c = CHR ''#'') line)
      else line)"

definition flush :: "chunker \<Rightarrow> chunker" where
  "flush st =
     (if buf st = [] then st
      else
        let text = strip (join [LF] (buf st)) in
        if text \<noteq> []
        then st\<lparr>chunks := chunks st @
                  [\<lparr>heading = (case current_h st of None \<Rightarrow> [] | Some h \<Rightarrow> h),
                    markdown = text\<rparr>],
                buf := []\<rparr>
        else st\<lparr>buf := []\<rparr>)"

definition chunk_line :: "chunker \<Rightarrow> string \<Rightarrow> chunker" where
  "chunk_line st line =
     (if is_fence line then st\<lparr>in_code := \<not> in_code st, buf := buf st @ [line]\<rparr>
      else if \<not> in_code st \<and> heading_match line then
        (let st' = flush st
         in st'\<lparr>current_h := Some (strip (sub_heading line)), buf := buf st' @ [line]\<rparr>)
      else st\<lparr>buf := buf st @ [line]\<rparr>)"

definition chunker_init :: chunker where
  "chunker_init = \<lparr>chunks = [], buf = [], current_h = None, in_code = False\<rparr>"

definition chunk_markdown :: "string \<Rightarrow> chunk list" where
  "chunk_markdown md = chunks (flush (foldl chunk_line chunker_init (splitlines md)))"

section \<open>More string operations\<close>

text \<open>\<open>sub in s\<close>\<close>

fun contains :: "string \<Rightarrow> string \<Rightarrow> bool" where
  "contains [] sub = (sub = [])"
| "contains (c # cs) sub = (prefix sub (c # cs) \<or> contains cs sub)"

text \<open>\<open>s.count(sub)\<close>: the occurrences are counted from the left and do not overlap.\<close>

function (sequential) str_count :: "string \<Rightarrow> string \<Rightarrow> nat" where
  "str_count s [] = length s + 1"
| "str_count [] (d # ds) = 0"
| "str_count (c # cs) (d # ds) =
     (if prefix (d # ds) (c # cs)
      then 1 + str_count (drop (length (d # ds)) (c # cs)) (d # ds)
      else str_count cs (d # ds))"
  by pat_completeness auto
termination
  by (relation "measure (\<lambda>(s, sub). length s)") auto

text \<open>\<open>str.lower\<close> on the code points below 256.\<close>

definition lower_char :: "char \<Rightarrow> char" where
  "lower_char c =
     (let n = (of_char c :: nat) in
      if (65 \<le> n \<and> n \<le> 90) \<or> (192 \<le> n \<and> n \<le> 222 \<and> n \<noteq> 215) then char_of (n + 32) else c)"

definition lower :: "string \<Rightarrow> string" where
  "lower s = map lower_char s"

text \<open>\<open>xs[:n]\<close> for a Python integer \<open>n\<close>, which may be negative.\<close>

definition slice_to :: "int \<Rightarrow> 'a list \<Rightarrow> 'a list" where
  "slice_to n xs = (if 0 \<le> n then take (nat n) xs else take (length xs - nat (- n)) xs)"

section \<open>DocumentCache\<close>

record document =
  url :: string
  markdown_url :: string
  title :: string
  description :: string
  content :: string
  raw_content :: string
  chunks_of :: "chunk list"

text \<open>One entry of \<open>DocumentCache.documents\<close>, the metadata of an embedded chunk.\<close>

record embedded_chunk =
  e_url :: string
  e_markdown_url :: string
  e_title :: string
  e_heading :: string
  e_snippet :: string

text \<open>
  \<open>cache\<close> is a Python dict: the association list keeps its insertion order and its
  keys are distinct. \<open>embeddings\<close> holds one row per embedded chunk.
\<close>

record DocumentCache =
  cache :: "(string \<times> document) list"
  embeddings :: "real list list option"
  documents :: "embedded_chunk list"

definition cache_get :: "DocumentCache \<Rightarrow> string \<Rightarrow> document option" where
  "cache_get dc u = map_of (cache dc) u"

fun dict_set :: "'k \<Rightarrow> 'v \<Rightarrow> ('k \<times> 'v) list \<Rightarrow> ('k \<times> 'v) list" where
  "dict_set k v [] = [(k, v)]"
| "dict_set k v ((k', v') # kvs) =
     (if k' = k then (k, v) # kvs else (k', v') # dict_set k v kvs)"

definition cache_set :: "DocumentCache \<Rightarrow> string \<Rightarrow> document \<Rightarrow> DocumentCache" where
  "cache_set dc u d = dc\<lparr>cache := dict_set u d (cache dc)\<rparr>"

definition has_embeddings :: "DocumentCache \<Rightarrow> bool" where
  "has_embeddings dc = (embeddings dc \<noteq> None \<and> 0 < length (documents dc))"

section \<open>ContentFetcher\<close>

text \<open>
  The HTTP client is outside the program. A GET either raises (a timeout, a transport
  error) or gives a response; what it gives may depend on the requests made before it.
  The world records the GETs issued, oldest first, and the delays slept.
\<close>

record response =
  status_code :: int
  content_type :: "string option"
  resp_text :: string

datatype exn = HttpError string | IndexError

type_synonym http = "string list \<Rightarrow> string \<Rightarrow> exn + response"

record world =
  requests :: "string list"
  sleeps :: "real list"

definition is_success :: "response \<Rightarrow> bool" where
  "is_success r = (200 \<le> status_code r \<and> status_code r \<le> 299)"

text \<open>The loop \<open>for attempt in range(4)\<close> of \<open>_get\<close>, over the attempts still to make.\<close>

fun get_attempts ::
  "http \<Rightarrow> string \<Rightarrow> nat list \<Rightarrow> world \<Rightarrow> (exn + response option) \<times> world" where
  "get_attempts net u [] w = (Inr None, w)"
| "get_attempts net u (attempt # rest) w =
     (let w1 = w\<lparr>requests := requests w @ [u]\<rparr> in
      case net (requests w) u of
        Inl e \<Rightarrow> (Inl e, w1)
      | Inr r \<Rightarrow>
          if status_code r = 429 \<or> (500 \<le> status_code r \<and> status_code r < 600)
          then get_attempts net u rest (w1\<lparr>sleeps := sleeps w1 @ [0.5 * 2 ^ attempt]\<rparr>)
          else if is_success r then (Inr (Some r), w1)
          else (Inr None, w1))"

definition inner_get :: "http \<Rightarrow> string \<Rightarrow> world \<Rightarrow> (exn + response option) \<times> world" where
  "inner_get net u w = get_attempts net u [0..<4] w"

text \<open>The test that accepts a response as markdown, written twice in the source.\<close>

definition markdownish :: "response \<Rightarrow> bool" where
  "markdownish r =
     (let ctype = lower (case content_type r of None \<Rightarrow> [] | Some c \<Rightarrow> c);
          body = resp_text r
      in contains ctype ''markdown'' \<or> contains ctype ''text/plain''
         \<or> startswith body ''# '' \<or> contains body ''```'')"

text \<open>The tail of \<open>fetch_markdown_content\<close>, once a body has been accepted.\<close>

definition store_document ::
  "string \<Rightarrow> string \<Rightarrow> string \<Rightarrow> DocumentCache \<Rightarrow> document \<times> DocumentCache" where
  "store_document u final_url body dc =
     (let cleaned = clean_markdown body;
          doc_data = \<lparr>url = u, markdown_url = final_url, title = extract_title body,
                      description = extract_description body, content = cleaned,
                      raw_content = body, chunks_of = chunk_markdown cleaned\<rparr>
      in (doc_data, cache_set dc u doc_data))"

text \<open>
  \<open>Inr None\<close> is the source's \<open>return None\<close> (the spec's NotFound), \<open>Inl e\<close> an exception
  that leaves the function. A stored document is a dict with seven keys, so the test
  \<open>if cached\<close> holds for every stored document.
\<close>

definition fetch_markdown_content ::
  "http \<Rightarrow> string \<Rightarrow> DocumentCache \<times> world \<Rightarrow> (exn + document option) \<times> DocumentCache \<times> world"
  where
  "fetch_markdown_content net u = (\<lambda>(dc, w).
     case cache_get dc u of
       Some cached \<Rightarrow> (Inr (Some cached), dc, w)
     | None \<Rightarrow>
         let md_url = (if endswith u ''.md'' then u else u @ ''.md'') in
         case inner_get net md_url w of
           (Inl e, w1) \<Rightarrow> (Inl e, dc, w1)
         | (Inr r, w1) \<Rightarrow>
             let body = (case r of
                           None \<Rightarrow> None
                         | Some r' \<Rightarrow> if markdownish r' then Some (resp_text r') else None)
             in
             (case body of
                Some b \<Rightarrow>
                  (let (doc_data, dc') = store_document u md_url b dc
                   in (Inr (Some doc_data), dc', w1))
              | None \<Rightarrow>
                  (case inner_get net u w1 of
                     (Inl e, w2) \<Rightarrow> (Inl e, dc, w2)
                   | (Inr r2, w2) \<Rightarrow>
                       (case r2 of
                          None \<Rightarrow> (Inr None, dc, w2)
                        | Some r2' \<Rightarrow>
                            if is_success r2' \<and> markdownish r2'
                            then (let (doc_data, dc') = store_document u u (resp_text r2') dc
                                  in (Inr (Some doc_data), dc', w2))
                            else (Inr None, dc, w2)))))"

section \<open>EmbeddingIndex\<close>

text \<open>
  The embedding model is outside the program: \<open>encode\<close> gives one vector per text.
  \<open>None\<close> is the model that failed to load. Similarities are modelled as real numbers
  (no rounding, no NaN).
\<close>

type_synonym encoder = "string list \<Rightarrow> real list list"

text \<open>A search result: an embedded chunk or a whole document, with its similarity.\<close>

datatype hit = ChunkHit embedded_chunk real | DocHit document real

fun similarity :: "hit \<Rightarrow> real" where
  "similarity (ChunkHit d s) = s"
| "similarity (DocHit d s) = s"

fun hit_title :: "hit \<Rightarrow> string" where
  "hit_title (ChunkHit d s) = e_title d"
| "hit_title (DocHit d s) = title d"

fun hit_url :: "hit \<Rightarrow> string" where
  "hit_url (ChunkHit d s) = e_url d"
| "hit_url (DocHit d s) = url d"

text \<open>A document has no key \<open>snippet\<close> and no key \<open>heading\<close>.\<close>

fun hit_snippet :: "hit \<Rightarrow> string option" where
  "hit_snippet (ChunkHit d s) = Some (e_snippet d)"
| "hit_snippet (DocHit d s) = None"

fun hit_heading :: "hit \<Rightarrow> string option" where
  "hit_heading (ChunkHit d s) = Some (e_heading d)"
| "hit_heading (DocHit d s) = None"

subsection \<open>simple_search\<close>

definition lexical_score :: "string \<Rightarrow> document \<Rightarrow> nat" where
  "lexical_score query_lower doc_data =
     (let s1 = (if contains (lower (title doc_data)) query_lower then 3 else 0);
          s2 = s1 + (if contains (lower (description doc_data)) query_lower then 2 else 0);
          content_lower = lower (content doc_data)
      in if contains content_lower query_lower
         then s2 + str_count content_lower query_lower
         else s2)"

text \<open>
  \<open>results.sort(key=..., reverse=True)\<close> is stable: results of equal similarity keep
  the order of the cache. The quotient \<open>score / 10.0\<close> is the exact one.
\<close>

definition simple_search :: "DocumentCache \<Rightarrow> string \<Rightarrow> int \<Rightarrow> hit list" where
  "simple_search dc query limit =
     (let query_lower = lower query;
          results = concat (map (\<lambda>(u, doc_data).
                       let score = lexical_score query_lower doc_data
                       in if 0 < score then [DocHit doc_data (real score / 10)] else [])
                     (cache dc))
      in slice_to limit (sort_key (\<lambda>x. - similarity x) results))"

subsection \<open>build_embeddings\<close>

text \<open>
  \<open>re.sub(r"```[\s\S]*?```", " ", s)\<close>: a match starts at a fence marker that has a
  later one, and ends with the first later one.
\<close>

function sub_fences :: "string \<Rightarrow> string" where
  "sub_fences [] = []"
| "sub_fences (c # cs) =
     (if prefix ''```'' (c # cs) then
        (case after_sep ''```'' (drop 3 (c # cs)) of
           Some rest \<Rightarrow> '' '' @ sub_fences rest
         | None \<Rightarrow> c # sub_fences cs)
      else c # sub_fences cs)"
  by pat_completeness auto
termination
proof (relation "measure length")
  show "wf (measure length)" by simp
next
  fix c :: char and cs rest :: string
  assume "prefix ''```'' (c # cs)" and r: "after_sep ''```'' (drop 3 (c # cs)) = Some rest"
  have "after_sep sep s = Some t \<Longrightarrow> length t \<le> length s" for sep s t
    by (induction s) (auto split: if_splits)
  from this[OF r] show "(rest, c # cs) \<in> measure length" by simp
qed auto

text \<open>
  \<open>re.sub(r"\[([^\]]+)\]\([^)]+\)", r"\1", s)\<close>: a link is an opening bracket, one or
  more characters other than a closing bracket, a closing bracket, an opening parenthesis,
  one or more characters other than a closing parenthesis, and a closing parenthesis; it
  is replaced with the text between the brackets.
\<close>

function sub_links :: "string \<Rightarrow> string" where
  "sub_links [] = []"
| "sub_links (c # cs) =
     (let label = takeWhile (\<lambda>x. x \<noteq> CHR '']'') cs;
          after_label = dropWhile (\<lambda>x. x \<noteq> CHR '']'') cs;
          target = takeWhile (\<lambda>x. x \<noteq> CHR '')'') (drop 2 after_label);
          after_target = dropWhile (\<lambda>x. x \<noteq> CHR '')'') (drop 2 after_label)
      in if c = CHR ''['' \<and> label \<noteq> [] \<and> prefix '']('' after_label \<and> target \<noteq> []
            \<and> prefix '')'' after_target
         then label @ sub_links (drop 1 after_target)
         else c # sub_links cs)"
  by pat_completeness auto
termination
proof (relation "measure length", goal_cases)
  case 1
  show ?case by simp
next
  case (2 c cs label after_label target after_target)
  have "length after_target \<le> length (drop 2 after_label)"
    unfolding 2(4) by (rule length_dropWhile_le)
  also have "\<dots> \<le> length after_label" by simp
  also have "\<dots> \<le> length cs"
    unfolding 2(2) by (rule length_dropWhile_le)
  finally show ?case by simp
next
  case 3
  show ?case by simp
qed

text \<open>\<open>re.sub(r"[#>*_`]", " ", s)\<close>\<close>

definition sub_markup :: "string \<Rightarrow> string" where
  "sub_markup s = map (\<lambda>c. if c \<in> set ''#>*_`'' then CHR '' '' else c) s"

text \<open>\<open>re.sub(r"\s+", " ", s)\<close>\<close>

function sub_spaces :: "string \<Rightarrow> string" where
  "sub_spaces [] = []"
| "sub_spaces (c # cs) =
     (if is_space c then CHR '' '' # sub_spaces (dropWhile is_space cs)
      else c # sub_spaces cs)"
  by pat_completeness auto
termination
proof (relation "measure length")
  show "wf (measure length)" by simp
next
  fix c :: char and cs :: string
  have "length (dropWhile is_space cs) \<le> length cs" by (rule length_dropWhile_le)
  then show "(dropWhile is_space cs, c # cs) \<in> measure length" by simp
qed auto

text \<open>
  The text prepared for the encoder from a document's title and a chunk. The format
  string of the source puts the character U+2013, which is outside the modelled range,
  between the title and the heading: its text is the parameter \<open>dash\<close>.
\<close>

definition embed_text :: "string \<Rightarrow> string \<Rightarrow> chunk \<Rightarrow> string" where
  "embed_text dash ttl ch =
     (let t = ttl @ '' '' @ dash @ '' '' @ heading ch @ [LF] @ sub_fences (markdown ch);
          t = sub_links t;
          t = sub_markup t
      in strip (sub_spaces t))"

definition build_embeddings ::
  "encoder option \<Rightarrow> string \<Rightarrow> DocumentCache \<Rightarrow> DocumentCache" where
  "build_embeddings embedding_model dash dc =
     (case embedding_model of
        None \<Rightarrow> dc
      | Some encode \<Rightarrow>
          let entries = concat (map (\<lambda>(u, doc).
                          concat (map (\<lambda>ch.
                            let t = embed_text dash (title doc) ch
                            in if t \<noteq> []
                               then [(take 1000 t,
                                      \<lparr>e_url = u, e_markdown_url = markdown_url doc,
                                       e_title = title doc, e_heading = heading ch,
                                       e_snippet = take 500 (markdown ch)\<rparr>)]
                               else [])
                            (chunks_of doc)))
                          (cache dc));
              texts = map fst entries;
              docs = map snd entries
          in if texts \<noteq> []
             then dc\<lparr>embeddings := Some (encode texts), documents := docs\<rparr>
             else dc)"

subsection \<open>search_documents\<close>

text \<open>One entry of \<open>np.dot(embeddings, q.T)\<close>.\<close>

definition dot :: "real list \<Rightarrow> real list \<Rightarrow> real" where
  "dot e q = sum_list (map (\<lambda>(x, y). x * y) (zip e q))"

text \<open>
  The loop that builds \<open>results\<close>; \<open>documents[i]\<close> and \<open>sims[i]\<close> raise when \<open>i\<close> is
  out of range.
\<close>

fun collect_hits :: "embedded_chunk list \<Rightarrow> real list \<Rightarrow> nat list \<Rightarrow> exn + hit list" where
  "collect_hits docs sims [] = Inr []"
| "collect_hits docs sims (i # idxs) =
     (if i < length docs \<and> i < length sims then
        (case collect_hits docs sims idxs of
           Inl e \<Rightarrow> Inl e
         | Inr results \<Rightarrow> Inr (ChunkHit (docs ! i) (sims ! i) # results))
      else Inl IndexError)"

text \<open>
  \<open>argsort\<close> stands for \<open>np.argsort\<close>, whose order among equal values is not fixed.
  The encoder answers the one query with one row, so the entries of \<open>q.T\<close> are those
  of \<open>concat q\<close>.
\<close>

definition search_documents ::
  "encoder option \<Rightarrow> string \<Rightarrow> (real list \<Rightarrow> nat list) \<Rightarrow>
   string \<Rightarrow> int \<Rightarrow> DocumentCache \<Rightarrow> (exn + hit list) \<times> DocumentCache" where
  "search_documents embedding_model dash argsort query limit dc0 =
     (let dc = (if \<not> has_embeddings dc0
                then build_embeddings embedding_model dash dc0 else dc0)
      in case embedding_model of
           None \<Rightarrow> (Inr (simple_search dc query limit), dc)
         | Some encode \<Rightarrow>
             (case embeddings dc of
                None \<Rightarrow> (Inr (simple_search dc query limit), dc)
              | Some emb \<Rightarrow>
                  if \<not> has_embeddings dc then (Inr (simple_search dc query limit), dc)
                  else
                    let q = encode [query];
                        sims = map (\<lambda>e. dot e (concat q)) emb;
                        idxs = slice_to limit (rev (argsort sims))
                    in (collect_hits (documents dc) sims idxs, dc)))"

section \<open>WarmupScheduler\<close>





section \<open>QuestionAnswerer\<close>

record source =
  s_title :: string
  s_url :: string
  relevance :: real

record answer =
  answer_text :: string
  sources :: "source list"
  confidence :: real

definition answer_question ::
  "encoder option \<Rightarrow> string \<Rightarrow> (real list \<Rightarrow> nat list) \<Rightarrow>
   string \<Rightarrow> DocumentCache \<Rightarrow> (exn + answer) \<times> DocumentCache" where
  "answer_question embedding_model dash argsort question dc =
     (case search_documents embedding_model dash argsort question 3 dc of
        (Inl e, dc') \<Rightarrow> (Inl e, dc')
      | (Inr relevant_docs, dc') \<Rightarrow>
          (case relevant_docs of
             [] \<Rightarrow>
               (Inr \<lparr>answer_text =
                       ''I couldn't find relevant information in the Voiceflow documentation.'',
                     sources = [], confidence = 0\<rparr>, dc')
           | first # others \<Rightarrow>
               let srcs = map (\<lambda>doc. \<lparr>s_title = hit_title doc, s_url = hit_url doc,
                                       relevance = similarity doc\<rparr>) relevant_docs;
                   answer_parts = concat (map (\<lambda>doc.
                       let snippet = (case hit_snippet doc of None \<Rightarrow> [] | Some sn \<Rightarrow> sn);
                           hd_text = (case hit_heading doc of None \<Rightarrow> [] | Some h \<Rightarrow> h)
                       in if snippet \<noteq> []
                          then [''**'' @ hit_title doc @ '' - '' @ hd_text @ ''**: '' @ snippet]
                          else [])
                     relevant_docs);
                   ans = (if answer_parts \<noteq> [] then join [LF, LF] answer_parts
                          else ''Based on the documentation, here's what I found: '' @
                               (case hit_snippet first of
                                  None \<Rightarrow> ''No specific information available''
                                | Some sn \<Rightarrow> sn))
               in (Inr \<lparr>answer_text = ans, sources = srcs,
                         confidence = foldl max (similarity first) (map similarity others)\<rparr>,
                   dc')))"

section \<open>The specification's reading of extract_title\<close>

text \<open>
  The spec's words: the first line starting with \<open># \<close> wins; else the first line
  starting with \<open>title:\<close>; else \<open>Untitled\<close>. It is compared with the code below.
\<close>

definition extract_title_spec :: "string \<Rightarrow> string" where
  "extract_title_spec body =
     (let ls = take 10 (split_char LF body) in
      case List.find (\<lambda>l. startswith l ''# '') ls of
        Some l \<Rightarrow> strip (drop 2 l)
      | None \<Rightarrow>
          (case List.find (\<lambda>l. startswith l ''title:'') ls of
             Some l \<Rightarrow> strip (drop 6 l)
           | None \<Rightarrow> ''Untitled''))"

section \<open>Notions used in the properties of chunk_markdown\<close>

text \<open>The characters of the chunks and of the buffer that are not whitespace.\<close>

definition visible :: "chunker \<Rightarrow> string" where
  "visible st = filter (\<lambda>c. \<not> is_space c) (concat (map markdown (chunks st)) @ concat (buf st))"

text \<open>
  The lines \<open>ls\<close> read so far are cut into consecutive groups: each finished group gave
  the chunk that is its lines joined and trimmed, unless that text is empty, and the
  last group is the buffer.
\<close>

definition grouped :: "chunker \<Rightarrow> string list \<Rightarrow> bool" where
  "grouped st ls = (\<exists>groups. concat groups @ buf st = ls \<and>
      map markdown (chunks st) = filter (\<lambda>t. t \<noteq> []) (map (\<lambda>g. strip (join [LF] g)) groups))"

definition fence_count :: "string list \<Rightarrow> nat" where
  "fence_count ls = length (filter is_fence ls)"

text \<open>The number of fence-marker lines of a text.\<close>

definition fence_lines :: "string \<Rightarrow> nat" where
  "fence_lines s = fence_count (splitlines s)"

definition no_linebreak :: "string \<Rightarrow> bool" where
  "no_linebreak l = (\<forall>c \<in> set l. \<not> is_linebreak c)"

text \<open>The invariant of the loop of \<open>chunk_markdown\<close> after the lines \<open>ls\<close>.\<close>

definition fence_inv :: "chunker \<Rightarrow> string list \<Rightarrow> bool" where
  "fence_inv st ls =
     ((\<forall>c \<in> set (chunks st). even (fence_lines (markdown c)))
      \<and> in_code st = odd (fence_count (buf st))
      \<and> in_code st = odd (fence_count ls)
      \<and> (\<forall>l \<in> set (buf st). no_linebreak l))"

section \<open>Notions used in the properties of the fetcher\<close>

text \<open>The statuses on which \<open>_get\<close> sleeps and goes on to the next attempt.\<close>

definition retryable :: "exn + response \<Rightarrow> bool" where
  "retryable x =
     (case x of
        Inl e \<Rightarrow> False
      | Inr r \<Rightarrow> status_code r = 429 \<or> (500 \<le> status_code r \<and> status_code r < 600))"

text \<open>What the client answers to the GET of \<open>u\<close> that comes after \<open>k\<close> GETs of \<open>u\<close>.\<close>

definition nth_response :: "http \<Rightarrow> world \<Rightarrow> string \<Rightarrow> nat \<Rightarrow> exn + response" where
  "nth_response net w u k = net (requests w @ replicate k u) u"

text \<open>The state of the world after \<open>n\<close> GETs of \<open>u\<close> and the sleeps of the first \<open>m\<close> attempts.\<close>

definition after_attempts :: "world \<Rightarrow> string \<Rightarrow> nat \<Rightarrow> nat \<Rightarrow> world" where
  "after_attempts w u n m =
     w\<lparr>requests := requests w @ replicate n u,
       sleeps := sleeps w @ map (\<lambda>attempt. 0.5 * 2 ^ attempt) [0..<m]\<rparr>"

definition md_variant :: "string \<Rightarrow> string" where
  "md_variant u = (if endswith u ''.md'' then u else u @ ''.md'')"

section \<open>The specification's reading of the warm-up candidates\<close>



section \<open>Notions used in the properties of search\<close>

text \<open>A list of similarities is non-increasing.\<close>

definition descending :: "real list \<Rightarrow> bool" where
  "descending xs = sorted_wrt (\<lambda>a b. b \<le> a) xs"

text \<open>
  What is assumed of \<open>np.argsort\<close>: its result lists every index once and the values
  at these indices are in ascending order.
\<close>

definition argsort_ok :: "(real list \<Rightarrow> nat list) \<Rightarrow> bool" where
  "argsort_ok argsort =
     (\<forall>xs. distinct (argsort xs) \<and> set (argsort xs) = {0..<length xs}
           \<and> sorted (map (\<lambda>i. xs ! i) (argsort xs)))"

text \<open>One such function, the stable one.\<close>

definition stable_argsort :: "real list \<Rightarrow> nat list" where
  "stable_argsort xs = sort_key (\<lambda>i. xs ! i) [0..<length xs]"

text \<open>The vectors and the metadata of the index are parallel arrays.\<close>

definition index_ok :: "DocumentCache \<Rightarrow> bool" where
  "index_ok dc = (case embeddings dc of None \<Rightarrow> True | Some emb \<Rightarrow> length emb = length (documents dc))"

text \<open>The encoder gives one vector per text.\<close>

definition encoder_ok :: "encoder option \<Rightarrow> bool" where
  "encoder_ok embedding_model =
     (case embedding_model of None \<Rightarrow> True | Some encode \<Rightarrow> \<forall>ts. length (encode ts) = length ts)"

text \<open>
  The spec's words for the lexical score: 3 if the query is a substring of the title,
  plus 2 if it is a substring of the description, plus the number of its occurrences in
  the content. It is compared with the code below.
\<close>

definition lexical_score_spec :: "string \<Rightarrow> string \<Rightarrow> string \<Rightarrow> string \<Rightarrow> nat" where
  "lexical_score_spec query ttl desc cont =
     3 * (if contains ttl query then 1 else 0) + 2 * (if contains desc query then 1 else 0)
     + str_count cont query"


section \<open>Properties of extract_title\<close>

lemma scan_title_find:
  "scan_title ls =
     (case List.find (\<lambda>l. startswith l ''# '' \<or> startswith l ''title:'') ls of
        None \<Rightarrow> ''Untitled''
      | Some l \<Rightarrow> if startswith l ''# '' then strip (drop 2 l) else strip (drop 6 l))"
  by (induction ls) auto

text \<open>
  C6, as stated: a line starting with \<open># \<close> wins over any line starting with
  \<open>title:\<close>, and on the frontmatter input of the spec the result is not \<open>X\<close>.
  On the code the \<open>title:\<close> line of that input comes first and wins: the result is
  \<open>X\<close>, where the priority that the claim describes gives \<open>Heading\<close>.
\<close>

theorem extract_title_priority_counterexample:
  "extract_title (''---'' @ [LF] @ ''title: X'' @ [LF] @ ''---'' @ [LF] @ ''# Heading'' @ [LF] @ ''Body text'')
     = ''X''
   \<and> extract_title_spec (''---'' @ [LF] @ ''title: X'' @ [LF] @ ''---'' @ [LF] @ ''# Heading'' @ [LF] @ ''Body text'')
     = ''Heading''"
  by (simp add: extract_title_def extract_title_spec_def split_char_def startswith_def
      strip_def lstrip_def rstrip_def is_space_def)

text \<open>
  C6, amended: \<open>extract_title\<close> looks at the first 10 lines only; the first of them
  that starts with \<open># \<close> or with \<open>title:\<close>, whichever of the two kinds comes first,
  gives the title (the text after the marker, trimmed); when no such line is among them the
  title is \<open>Untitled\<close>.
\<close>

theorem extract_title_first_marker:
  "extract_title body =
     (case List.find (\<lambda>l. startswith l ''# '' \<or> startswith l ''title:'')
             (take 10 (split_char LF body)) of
        None \<Rightarrow> ''Untitled''
      | Some l \<Rightarrow> if startswith l ''# '' then strip (drop 2 l) else strip (drop 6 l))"
  by (simp add: extract_title_def scan_title_find)

theorem extract_title_first_marker_witness:
  "extract_title (''intro'' @ [LF] @ ''#  Heading '' @ [LF] @ ''title: X'') = ''Heading''"
  using extract_title_first_marker [of "''intro'' @ [LF] @ ''#  Heading '' @ [LF] @ ''title: X''"]
  by (simp add: split_char_def startswith_def strip_def lstrip_def rstrip_def is_space_def)


section \<open>Properties of chunk_markdown: reconstruction\<close>


lemma linebreak_is_space: "is_linebreak c \<Longrightarrow> is_space c"
  by (auto simp: is_linebreak_def is_space_def)

lemma filter_dropWhile_neg: "filter (\<lambda>c. \<not> P c) (dropWhile P s) = filter (\<lambda>c. \<not> P c) s"
  by (induction s) auto

lemma nonspace_lstrip: "filter (\<lambda>c. \<not> is_space c) (lstrip s) = filter (\<lambda>c. \<not> is_space c) s"
  by (simp add: lstrip_def filter_dropWhile_neg)

lemma nonspace_rstrip: "filter (\<lambda>c. \<not> is_space c) (rstrip s) = filter (\<lambda>c. \<not> is_space c) s"
proof -
  have "filter (\<lambda>c. \<not> is_space c) (rev (dropWhile is_space (rev s)))
        = rev (filter (\<lambda>c. \<not> is_space c) (dropWhile is_space (rev s)))"
    by (simp add: rev_filter)
  also have "\<dots> = rev (filter (\<lambda>c. \<not> is_space c) (rev s))"
    by (simp add: filter_dropWhile_neg)
  also have "\<dots> = filter (\<lambda>c. \<not> is_space c) s"
    by (simp add: rev_filter)
  finally show ?thesis by (simp add: rstrip_def)
qed

lemma nonspace_strip: "filter (\<lambda>c. \<not> is_space c) (strip s) = filter (\<lambda>c. \<not> is_space c) s"
  by (simp add: strip_def nonspace_lstrip nonspace_rstrip)

lemma nonspace_splitlines_from:
  "filter (\<lambda>c. \<not> is_space c) (concat (splitlines_from cur s)) = filter (\<lambda>c. \<not> is_space c) (cur @ s)"
proof (induction cur s rule: splitlines_from.induct)
  case (1 cur)
  then show ?case by simp
next
  case (2 cur c cs)
  show ?case
  proof (cases "is_linebreak c")
    case lb: True
    show ?thesis
    proof (cases "c = CR \<and> startswith cs [LF]")
      case True
      then obtain cs' where cs: "cs = LF # cs'"
        by (cases cs) (auto simp: startswith_def)
      have "is_space LF" by (simp add: is_space_def)
      with 2(1)[OF lb] True lb cs show ?thesis
        by (simp add: linebreak_is_space)
    next
      case False
      with 2(1)[OF lb] lb show ?thesis
        by (auto simp add: linebreak_is_space)
    qed
  next
    case False
    with 2(2) show ?thesis by simp
  qed
qed

lemma nonspace_splitlines:
  "filter (\<lambda>c. \<not> is_space c) (concat (splitlines s)) = filter (\<lambda>c. \<not> is_space c) s"
  by (simp add: splitlines_def nonspace_splitlines_from)

lemma nonspace_join:
  "filter (\<lambda>c. \<not> is_space c) (join [LF] ls) = filter (\<lambda>c. \<not> is_space c) (concat ls)"
  by (induction "[LF]" ls rule: join.induct) (auto simp: is_space_def)

lemma visible_flush: "visible (flush st) = visible st \<and> buf (flush st) = []"
  using nonspace_strip[of "join [LF] (buf st)"]
  by (auto simp: flush_def visible_def Let_def nonspace_join)

lemma visible_chunk_line:
  "visible (chunk_line st l) = visible st @ filter (\<lambda>c. \<not> is_space c) l"
proof -
  have "visible ((flush st)\<lparr>current_h := h, buf := buf (flush st) @ [l]\<rparr>)
        = visible (flush st) @ filter (\<lambda>c. \<not> is_space c) l" for h
    by (simp add: visible_def)
  then show ?thesis
    by (auto simp: chunk_line_def Let_def visible_flush) (simp_all add: visible_def)
qed

lemma visible_foldl:
  "visible (foldl chunk_line st ls) = visible st @ filter (\<lambda>c. \<not> is_space c) (concat ls)"
  by (induction ls arbitrary: st) (simp_all add: visible_chunk_line)

lemma chunk_nonspace:
  "filter (\<lambda>c. \<not> is_space c) (concat (map markdown (chunk_markdown md)))
     = filter (\<lambda>c. \<not> is_space c) md"
proof -
  let ?st = "foldl chunk_line chunker_init (splitlines md)"
  have "filter (\<lambda>c. \<not> is_space c) (concat (map markdown (chunks (flush ?st)))) = visible (flush ?st)"
    using visible_flush[of ?st] by (simp add: visible_def)
  also have "\<dots> = visible ?st" by (simp add: visible_flush)
  also have "\<dots> = filter (\<lambda>c. \<not> is_space c) (concat (splitlines md))"
    by (simp add: visible_foldl) (simp add: visible_def chunker_init_def)
  finally show ?thesis by (simp add: chunk_markdown_def nonspace_splitlines)
qed


lemma grouped_flush:
  assumes "grouped st ls" shows "grouped (flush st) ls"
proof -
  from assms obtain groups where g: "concat groups @ buf st = ls"
    "map markdown (chunks st) = filter (\<lambda>t. t \<noteq> []) (map (\<lambda>g. strip (join [LF] g)) groups)"
    by (auto simp: grouped_def)
  show ?thesis
  proof (cases "buf st = []")
    case True
    with assms show ?thesis by (simp add: flush_def)
  next
    case False
    have "concat (groups @ [buf st]) @ buf (flush st) = ls"
      using g(1) False by (simp add: flush_def Let_def)
    moreover have "map markdown (chunks (flush st)) =
        filter (\<lambda>t. t \<noteq> []) (map (\<lambda>g. strip (join [LF] g)) (groups @ [buf st]))"
      using g(2) False by (simp add: flush_def Let_def)
    ultimately show ?thesis unfolding grouped_def by blast
  qed
qed

lemma grouped_append:
  assumes "grouped st ls" "buf st' = buf st @ [l]" "chunks st' = chunks st"
  shows "grouped st' (ls @ [l])"
  using assms unfolding grouped_def by auto

lemma grouped_chunk_line:
  assumes "grouped st ls" shows "grouped (chunk_line st l) (ls @ [l])"
proof -
  have "grouped ((flush st)\<lparr>current_h := h, buf := buf (flush st) @ [l]\<rparr>) (ls @ [l])" for h
    by (rule grouped_append[OF grouped_flush[OF assms]]) simp_all
  moreover have "grouped (st\<lparr>buf := buf st @ [l]\<rparr>) (ls @ [l])"
    by (rule grouped_append[OF assms]) simp_all
  moreover have "grouped (st\<lparr>in_code := b, buf := buf st @ [l]\<rparr>) (ls @ [l])" for b
    by (rule grouped_append[OF assms]) simp_all
  ultimately show ?thesis
    by (simp add: chunk_line_def Let_def)
qed

lemma grouped_foldl:
  "grouped st ls \<Longrightarrow> grouped (foldl chunk_line st ms) (ls @ ms)"
proof (induction ms arbitrary: st ls)
  case Nil
  then show ?case by simp
next
  case (Cons m ms)
  from Cons.IH[OF grouped_chunk_line[OF Cons.prems, of m]] show ?case by simp
qed

lemma grouped_init: "grouped chunker_init []"
  unfolding grouped_def chunker_init_def by (intro exI[of _ "[]"]) simp

lemma chunk_markdown_groups:
  "\<exists>groups. concat groups = splitlines md \<and>
     map markdown (chunk_markdown md) = filter (\<lambda>t. t \<noteq> []) (map (\<lambda>g. strip (join [LF] g)) groups)"
proof -
  let ?st = "foldl chunk_line chunker_init (splitlines md)"
  have "grouped (flush ?st) (splitlines md)"
    using grouped_flush[OF grouped_foldl[OF grouped_init, of "splitlines md"]] by simp
  moreover have "buf (flush ?st) = []" by (simp add: flush_def Let_def)
  ultimately show ?thesis
    unfolding grouped_def chunk_markdown_def by auto
qed

section \<open>Properties of chunk_markdown: fences\<close>


lemma lstrip_Cons_space: "is_space c \<Longrightarrow> lstrip (c # l) = lstrip l"
  by (simp add: lstrip_def)

lemma rstrip_snoc_space: "is_space c \<Longrightarrow> rstrip (l @ [c]) = rstrip l"
  by (simp add: rstrip_def)

lemma strip_Cons_space: "is_space c \<Longrightarrow> strip (c # l) = strip l"
  by (simp add: strip_def lstrip_Cons_space)

lemma strip_snoc_space: "is_space c \<Longrightarrow> strip (l @ [c]) = strip l"
proof (cases "\<forall>x\<in>set l. is_space x")
  case True
  assume "is_space c"
  with True have "lstrip (l @ [c]) = []" "lstrip l = []"
    by (simp_all add: lstrip_def)
  then show ?thesis by (simp add: strip_def)
next
  case False
  assume c: "is_space c"
  from False have "lstrip (l @ [c]) = lstrip l @ [c]"
    by (auto simp: lstrip_def dropWhile_append)
  with c show ?thesis by (simp add: strip_def rstrip_snoc_space)
qed

lemma is_fence_Nil: "\<not> is_fence []"
  by (simp add: is_fence_def strip_def lstrip_def rstrip_def startswith_def)

lemma is_fence_Cons_space: "is_space c \<Longrightarrow> is_fence (c # l) = is_fence l"
  by (simp add: is_fence_def strip_Cons_space)

lemma is_fence_snoc_space: "is_space c \<Longrightarrow> is_fence (l @ [c]) = is_fence l"
  by (simp add: is_fence_def strip_snoc_space)

lemma is_fence_single_space: "is_space c \<Longrightarrow> \<not> is_fence [c]"
  using is_fence_Cons_space[of c "[]"] by (simp add: is_fence_Nil)

lemma splitlines_from_cur:
  "splitlines_from cur s =
     (case splitlines_from [] s of
        [] \<Rightarrow> (if cur = [] then [] else [cur])
      | l # ls \<Rightarrow> (cur @ l) # ls)"
proof (induction s arbitrary: cur)
  case Nil
  then show ?case by simp
next
  case (Cons c cs)
  show ?case
  proof (cases "is_linebreak c")
    case True
    then show ?thesis by simp
  next
    case False
    have a: "splitlines_from cur (c # cs) = splitlines_from (cur @ [c]) cs"
      using False by simp
    have b: "splitlines_from [] (c # cs) = splitlines_from [c] cs"
      using False by simp
    show ?thesis
      unfolding a b
      by (subst Cons.IH[of "cur @ [c]"], subst Cons.IH[of "[c]"]) (simp split: list.splits)
  qed
qed

lemma fence_count_Cons_space:
  assumes "is_space c"
  shows "fence_count (splitlines (c # s)) = fence_count (splitlines s)"
proof (cases "is_linebreak c")
  case True
  show ?thesis
  proof (cases "c = CR \<and> startswith s [LF]")
    case c2: True
    then obtain s' where s: "s = LF # s'"
      by (cases s) (auto simp: startswith_def)
    have "is_linebreak LF" by (simp add: is_linebreak_def)
    with True c2 s show ?thesis
      by (simp add: splitlines_def fence_count_def is_fence_Nil)
  next
    case False
    with True show ?thesis
      by (auto simp add: splitlines_def fence_count_def is_fence_Nil)
  qed
next
  case False
  have "splitlines (c # s) = splitlines_from [c] s"
    using False by (simp add: splitlines_def)
  also have "\<dots> = (case splitlines s of [] \<Rightarrow> [ [c] ] | l # ls \<Rightarrow> (c # l) # ls)"
    by (subst splitlines_from_cur) (simp add: splitlines_def split: list.splits)
  finally show ?thesis
    using assms
    by (auto simp: fence_count_def is_fence_Cons_space is_fence_Nil split: list.splits)
qed

lemma fence_count_lstrip: "fence_count (splitlines (lstrip s)) = fence_count (splitlines s)"
  unfolding lstrip_def
  by (induction s) (simp_all add: fence_count_Cons_space)

lemma fence_count_snoc_space_from:
  "is_space c \<Longrightarrow>
   fence_count (splitlines_from cur (s @ [c])) = fence_count (splitlines_from cur s)"
proof (induction cur s rule: splitlines_from.induct)
  case (1 cur)
  then show ?case
    by (auto simp: fence_count_def is_fence_Nil is_fence_snoc_space is_fence_single_space
        startswith_def)
next
  case (2 cur d cs)
  show ?case
  proof (cases "is_linebreak d")
    case lb: True
    define rest where "rest = (if d = CR \<and> startswith cs [LF] then tl cs else cs)"
    have ih: "fence_count (splitlines_from [] (rest @ [c])) = fence_count (splitlines_from [] rest)"
      using 2(1)[OF lb 2(3)] by (simp add: rest_def)
    have rhs: "splitlines_from cur (d # cs) = cur # splitlines_from [] rest"
      using lb by (simp add: rest_def)
    show ?thesis
    proof (cases cs)
      case Nil
      have r: "rest = []" using Nil by (simp add: rest_def)
      have zero: "fence_count (splitlines_from [] [c]) = 0"
        using ih by (simp add: r fence_count_def)
      have "splitlines_from cur ((d # cs) @ [c]) =
              cur # splitlines_from [] (if d = CR \<and> c = LF then [] else [c])"
        using lb Nil by (simp add: startswith_def)
      then have "fence_count (splitlines_from cur ((d # cs) @ [c])) = fence_count [cur]"
        using zero by (simp add: fence_count_def)
      also have "\<dots> = fence_count (splitlines_from cur (d # cs))"
        by (simp only: rhs r) (simp add: fence_count_def)
      finally show ?thesis .
    next
      case (Cons e es)
      have "(if d = CR \<and> startswith (cs @ [c]) [LF] then tl (cs @ [c]) else cs @ [c]) = rest @ [c]"
        using Cons by (simp add: rest_def startswith_def)
      then have "splitlines_from cur ((d # cs) @ [c]) = cur # splitlines_from [] (rest @ [c])"
        using lb by simp
      then show ?thesis
        using ih by (simp only: rhs) (simp add: fence_count_def)
    qed
  next
    case False
    with 2(2)[OF False 2(3)] show ?thesis by simp
  qed
qed

lemma fence_count_rstrip: "fence_count (splitlines (rstrip s)) = fence_count (splitlines s)"
proof -
  have "fence_count (splitlines (rev (dropWhile is_space t))) = fence_count (splitlines (rev t))" for t
  proof (induction t)
    case Nil
    then show ?case by simp
  next
    case (Cons c t)
    then show ?case
      by (auto simp: splitlines_def fence_count_snoc_space_from)
  qed
  from this[of "rev s"] show ?thesis by (simp add: rstrip_def)
qed

lemma fence_count_strip: "fence_count (splitlines (strip s)) = fence_count (splitlines s)"
  by (simp add: strip_def fence_count_rstrip fence_count_lstrip)



lemma splitlines_from_no_linebreak:
  "no_linebreak l \<Longrightarrow> splitlines_from cur (l @ s) = splitlines_from (cur @ l) s"
  by (induction l arbitrary: cur) (simp_all add: no_linebreak_def)

lemma splitlines_single: "no_linebreak x \<Longrightarrow> splitlines x = (if x = [] then [] else [x])"
  using splitlines_from_no_linebreak[of x "[]" "[]"] by (simp add: splitlines_def)

lemma splitlines_line_LF:
  assumes "no_linebreak x"
  shows "splitlines (x @ LF # s) = x # splitlines s"
proof -
  have lb: "is_linebreak LF" by (simp add: is_linebreak_def)
  have "splitlines (x @ LF # s) = splitlines_from x (LF # s)"
    using splitlines_from_no_linebreak[OF assms, of "[]" "LF # s"] by (simp add: splitlines_def)
  also have "\<dots> = x # splitlines_from [] s"
    using lb by simp
  finally show ?thesis by (simp add: splitlines_def)
qed

lemma fence_count_join:
  "\<forall>l \<in> set ls. no_linebreak l \<Longrightarrow> fence_count (splitlines (join [LF] ls)) = fence_count ls"
proof (induction "[LF]" ls rule: join.induct)
  case 1
  then show ?case by (simp add: splitlines_def fence_count_def)
next
  case (2 x)
  then show ?case by (simp add: splitlines_single fence_count_def is_fence_Nil)
next
  case (3 x y ys)
  have "splitlines (join [LF] (x # y # ys)) = x # splitlines (join [LF] (y # ys))"
    using 3(2) splitlines_line_LF[of x "join [LF] (y # ys)"] by simp
  with 3 show ?case by (simp add: fence_count_def)
qed

lemma splitlines_from_lines:
  "no_linebreak cur \<Longrightarrow> l \<in> set (splitlines_from cur s) \<Longrightarrow> no_linebreak l"
proof (induction cur s rule: splitlines_from.induct)
  case (1 cur)
  then show ?case by (simp split: if_splits)
next
  case (2 cur c cs)
  show ?case
  proof (cases "is_linebreak c")
    case True
    have nil: "no_linebreak []" by (simp add: no_linebreak_def)
    from 2(4) True have "l = cur \<or>
       l \<in> set (splitlines_from [] (if c = CR \<and> startswith cs [LF] then tl cs else cs))"
      by simp
    then show ?thesis
      using 2(1)[OF True nil] 2(3) by blast
  next
    case False
    then have "no_linebreak (cur @ [c])" using 2(3) by (simp add: no_linebreak_def)
    moreover from 2(4) False have "l \<in> set (splitlines_from (cur @ [c]) cs)" by simp
    ultimately show ?thesis using 2(2)[OF False] by blast
  qed
qed

lemma splitlines_lines: "l \<in> set (splitlines s) \<Longrightarrow> no_linebreak l"
  using splitlines_from_lines[of "[]" l s] by (simp add: splitlines_def no_linebreak_def)



lemma fence_lines_text:
  "\<forall>l \<in> set ls. no_linebreak l \<Longrightarrow> fence_lines (strip (join [LF] ls)) = fence_count ls"
  by (simp add: fence_lines_def fence_count_strip fence_count_join)

lemma fence_inv_flush:
  assumes "fence_inv st ls" "\<not> in_code st"
  shows "fence_inv (flush st) ls"
proof -
  from assms have ev: "even (fence_lines (strip (join [LF] (buf st))))"
    by (simp add: fence_inv_def fence_lines_text)
  have nil: "fence_count [] = 0" by (simp add: fence_count_def)
  show ?thesis
    using assms ev
    by (auto simp: fence_inv_def flush_def Let_def nil)
qed

lemma fence_count_snoc: "fence_count (ls @ [l]) = fence_count ls + (if is_fence l then 1 else 0)"
  by (simp add: fence_count_def)

lemma buf_flush: "buf (flush st) = []"
  by (simp add: flush_def Let_def)

lemma in_code_flush: "in_code (flush st) = in_code st"
  by (simp add: flush_def Let_def)

lemma fence_inv_chunk_line:
  assumes inv: "fence_inv st ls" and l: "no_linebreak l"
  shows "fence_inv (chunk_line st l) (ls @ [l])"
proof (cases "is_fence l")
  case True
  then have "chunk_line st l = st\<lparr>in_code := \<not> in_code st, buf := buf st @ [l]\<rparr>"
    by (simp add: chunk_line_def)
  with inv l True show ?thesis
    by (auto simp add: fence_inv_def fence_count_snoc)
next
  case nf: False
  show ?thesis
  proof (cases "\<not> in_code st \<and> heading_match l")
    case True
    then have eq: "chunk_line st l =
        (flush st)\<lparr>current_h := Some (strip (sub_heading l)), buf := buf (flush st) @ [l]\<rparr>"
      using nf by (simp add: chunk_line_def Let_def)
    from True inv have f: "fence_inv (flush st) ls" by (simp add: fence_inv_flush)
    have nil: "fence_count [l] = 0" using nf by (simp add: fence_count_def)
    from f l nf True show ?thesis
      unfolding eq
      by (auto simp add: fence_inv_def buf_flush in_code_flush nil fence_count_snoc)
  next
    case False
    then have "chunk_line st l = st\<lparr>buf := buf st @ [l]\<rparr>"
      using nf by (auto simp add: chunk_line_def)
    with inv l nf show ?thesis
      by (auto simp add: fence_inv_def fence_count_snoc)
  qed
qed

lemma fence_inv_foldl:
  "fence_inv st ls \<Longrightarrow> \<forall>l \<in> set ms. no_linebreak l \<Longrightarrow>
   fence_inv (foldl chunk_line st ms) (ls @ ms)"
proof (induction ms arbitrary: st ls)
  case Nil
  then show ?case by simp
next
  case (Cons m ms)
  from Cons.prems have "fence_inv (chunk_line st m) (ls @ [m])"
    by (simp add: fence_inv_chunk_line)
  from Cons.IH[OF this] Cons.prems(2) show ?case by simp
qed

lemma fence_inv_init: "fence_inv chunker_init []"
  by (simp add: fence_inv_def chunker_init_def fence_count_def)



text \<open>
  C1 (chunk reconstruction). The lines of the input are cut into consecutive groups, in
  order, none lost, repeated or moved; the markdown of the chunks are exactly the
  groups, each joined with newlines and trimmed, without those that are empty after
  trimming. Hence the chunks' markdown, concatenated in order, and the input have the same
  characters other than whitespace, in the same order. The fences need not be balanced
  for this. The same holds between the chunks and the cleaned content of every document
  that \<open>fetch_markdown_content\<close> stores.
\<close>

theorem chunk_reconstruction:
  "(\<exists>groups. concat groups = splitlines md \<and>
      map markdown (chunk_markdown md) =
        filter (\<lambda>t. t \<noteq> []) (map (\<lambda>g. strip (join [LF] g)) groups))
   \<and> filter (\<lambda>c. \<not> is_space c) (concat (map markdown (chunk_markdown md)))
       = filter (\<lambda>c. \<not> is_space c) md
   \<and> filter (\<lambda>c. \<not> is_space c)
         (concat (map markdown (chunks_of (fst (store_document u final_url body dc)))))
       = filter (\<lambda>c. \<not> is_space c) (content (fst (store_document u final_url body dc)))"
proof (intro conjI)
  show "\<exists>groups. concat groups = splitlines md \<and>
      map markdown (chunk_markdown md) =
        filter (\<lambda>t. t \<noteq> []) (map (\<lambda>g. strip (join [LF] g)) groups)"
    by (rule chunk_markdown_groups)
  show "filter (\<lambda>c. \<not> is_space c) (concat (map markdown (chunk_markdown md)))
       = filter (\<lambda>c. \<not> is_space c) md"
    by (rule chunk_nonspace)
  show "filter (\<lambda>c. \<not> is_space c)
         (concat (map markdown (chunks_of (fst (store_document u final_url body dc)))))
       = filter (\<lambda>c. \<not> is_space c) (content (fst (store_document u final_url body dc)))"
    by (simp add: store_document_def Let_def chunk_nonspace)
qed

theorem chunk_reconstruction_witness:
  "filter (\<lambda>c. \<not> is_space c)
     (concat (map markdown (chunk_markdown
        (''intro'' @ [LF] @ ''# A'' @ [LF] @ ''```'' @ [LF] @ ''# x'' @ [LF] @ ''```'' @ [LF] @ '' '' @ [LF]
         @ ''## B'' @ [LF] @ ''y''))))
   = ''intro#A```#x```##By''"
proof -
  have "filter (\<lambda>c. \<not> is_space c)
          (''intro'' @ [LF] @ ''# A'' @ [LF] @ ''```'' @ [LF] @ ''# x'' @ [LF] @ ''```'' @ [LF] @ '' '' @ [LF]
           @ ''## B'' @ [LF] @ ''y'')
        = ''intro#A```#x```##By''"
    by code_simp
  with chunk_reconstruction
         [of "''intro'' @ [LF] @ ''# A'' @ [LF] @ ''```'' @ [LF] @ ''# x'' @ [LF] @ ''```'' @ [LF] @ '' '' @ [LF]
              @ ''## B'' @ [LF] @ ''y''"]
  show ?thesis by simp
qed

lemma chunk_markdown_fences:
  assumes bal: "even (fence_lines md)"
  shows "\<forall>c \<in> set (chunk_markdown md). even (fence_lines (markdown c))"
proof -
  let ?st = "foldl chunk_line chunker_init (splitlines md)"
  have inv: "fence_inv ?st (splitlines md)"
    using fence_inv_foldl[OF fence_inv_init, of "splitlines md"] splitlines_lines by auto
  with bal have "\<not> in_code ?st" by (auto simp add: fence_inv_def fence_lines_def)
  with inv have "fence_inv (flush ?st) (splitlines md)" by (rule fence_inv_flush)
  then show ?thesis
    by (simp add: fence_inv_def chunk_markdown_def)
qed

text \<open>
  C2 (fence integrity). When the input has an even number of fence-marker lines, every
  chunk has an even number of fence-marker lines: a fence opened in a chunk is closed in
  it. Inside a fence no line, a heading line included, starts a chunk or changes the
  heading: it is added to the buffer. So the chunks of a stored document whose content
  has an even number of fence-marker lines each have an even number of them.
\<close>

theorem fence_integrity:
  "(even (fence_lines md) \<longrightarrow> (\<forall>c \<in> set (chunk_markdown md). even (fence_lines (markdown c))))
   \<and> (in_code st \<longrightarrow>
        chunks (chunk_line st l) = chunks st \<and> buf (chunk_line st l) = buf st @ [l]
        \<and> current_h (chunk_line st l) = current_h st)
   \<and> (even (fence_lines (content (fst (store_document u final_url body dc)))) \<longrightarrow>
        (\<forall>c \<in> set (chunks_of (fst (store_document u final_url body dc))).
           even (fence_lines (markdown c))))"
proof (intro conjI impI)
  assume bal: "even (fence_lines md)"
  then show "\<forall>c \<in> set (chunk_markdown md). even (fence_lines (markdown c))"
    by (rule chunk_markdown_fences)
next
  assume "even (fence_lines (content (fst (store_document u final_url body dc))))"
  then have "even (fence_lines (clean_markdown body))"
    by (simp add: store_document_def Let_def)
  from chunk_markdown_fences[OF this]
  show "\<forall>c \<in> set (chunks_of (fst (store_document u final_url body dc))).
           even (fence_lines (markdown c))"
    by (simp add: store_document_def Let_def)
next
  assume "in_code st"
  then show "chunks (chunk_line st l) = chunks st" by (simp add: chunk_line_def)
next
  assume "in_code st"
  then show "buf (chunk_line st l) = buf st @ [l]" by (simp add: chunk_line_def)
next
  assume "in_code st"
  then show "current_h (chunk_line st l) = current_h st" by (simp add: chunk_line_def)
qed

theorem fence_integrity_witness:
  "even (fence_lines (''# A'' @ [LF] @ ''```'' @ [LF] @ ''# x'' @ [LF] @ ''```'' @ [LF] @ ''## B'' @ [LF] @ ''y''))
   \<and> list_all (\<lambda>c. even (fence_lines (markdown c)))
         (chunk_markdown
           (''# A'' @ [LF] @ ''```'' @ [LF] @ ''# x'' @ [LF] @ ''```'' @ [LF] @ ''## B'' @ [LF] @ ''y''))
   \<and> in_code (chunker_init\<lparr>in_code := True\<rparr>)
   \<and> chunks (chunk_line (chunker_init\<lparr>in_code := True\<rparr>) ''# x'') = chunks (chunker_init\<lparr>in_code := True\<rparr>)
   \<and> list_all (\<lambda>c. even (fence_lines (markdown c)))
         (chunks_of (fst (store_document ''u'' ''u.md''
            (''# A'' @ [LF] @ ''```'' @ [LF] @ ''# x'' @ [LF] @ ''```'' @ [LF] @ ''## B'' @ [LF] @ ''y'')
            \<lparr>cache = [], embeddings = None, documents = []\<rparr>)))"
proof -
  have a: "even (fence_lines (''# A'' @ [LF] @ ''```'' @ [LF] @ ''# x'' @ [LF] @ ''```'' @ [LF] @ ''## B'' @ [LF] @ ''y''))"
    by code_simp
  have b: "in_code (chunker_init\<lparr>in_code := True\<rparr>)" by simp
  have c: "even (fence_lines (content (fst (store_document ''u'' ''u.md''
            (''# A'' @ [LF] @ ''```'' @ [LF] @ ''# x'' @ [LF] @ ''```'' @ [LF] @ ''## B'' @ [LF] @ ''y'')
            \<lparr>cache = [], embeddings = None, documents = []\<rparr>))))"
    by code_simp
  from fence_integrity
         [of "''# A'' @ [LF] @ ''```'' @ [LF] @ ''# x'' @ [LF] @ ''```'' @ [LF] @ ''## B'' @ [LF] @ ''y''"
             "chunker_init\<lparr>in_code := True\<rparr>" "''# x''" "''u''" "''u.md''"
             "''# A'' @ [LF] @ ''```'' @ [LF] @ ''# x'' @ [LF] @ ''```'' @ [LF] @ ''## B'' @ [LF] @ ''y''"
             "\<lparr>cache = [], embeddings = None, documents = []\<rparr>"] a b c
  show ?thesis unfolding list_all_iff by blast
qed



section \<open>Properties of the fetcher\<close>

lemma get_attempts_skip:
  "n \<le> length as \<Longrightarrow> \<forall>k<n. retryable (net (requests w @ replicate k u) u) \<Longrightarrow>
   get_attempts net u as w =
   get_attempts net u (drop n as)
     (w\<lparr>requests := requests w @ replicate n u,
        sleeps := sleeps w @ map (\<lambda>attempt. 0.5 * 2 ^ attempt) (take n as)\<rparr>)"
proof (induction n arbitrary: as w)
  case 0
  then show ?case by simp
next
  case (Suc n)
  then obtain a rest where as: "as = a # rest" by (cases as) auto
  from Suc.prems(2) have r0: "retryable (net (requests w) u)" by force
  then obtain r where r: "net (requests w) u = Inr r"
    "status_code r = 429 \<or> (500 \<le> status_code r \<and> status_code r < 600)"
    by (auto simp: retryable_def split: sum.splits)
  let ?w1 = "w\<lparr>requests := requests w @ [u], sleeps := sleeps w @ [0.5 * 2 ^ a]\<rparr>"
  have step: "get_attempts net u as w = get_attempts net u rest ?w1"
    using r by (simp add: as Let_def)
  have ret: "\<forall>k<n. retryable (net (requests ?w1 @ replicate k u) u)"
  proof (intro allI impI)
    fix k assume "k < n"
    then have "retryable (net (requests w @ replicate (Suc k) u) u)"
      using Suc.prems(2) by auto
    then show "retryable (net (requests ?w1 @ replicate k u) u)"
      by (simp add: replicate_app_Cons_same)
  qed
  have len: "n \<le> length rest" using Suc.prems(1) as by simp
  have "get_attempts net u rest ?w1 =
     get_attempts net u (drop n rest)
       (?w1\<lparr>requests := requests ?w1 @ replicate n u,
             sleeps := sleeps ?w1 @ map (\<lambda>attempt. 0.5 * 2 ^ attempt) (take n rest)\<rparr>)"
    by (rule Suc.IH[OF len ret])
  with step show ?case
    by (simp add: as replicate_app_Cons_same)
qed

lemma inner_get_skip:
  assumes "n \<le> 4" "\<forall>k<n. retryable (nth_response net w u k)"
  shows "inner_get net u w = get_attempts net u [n..<4] (after_attempts w u n n)"
proof -
  have "take n [0..<4] = [0..<n]" using assms(1) by simp
  moreover have "drop n [0..<4] = [n..<4]" by simp
  ultimately show ?thesis
    using get_attempts_skip[of n "[0..<4]" net w u] assms
    by (simp add: inner_get_def nth_response_def after_attempts_def)
qed

lemma inner_get_exhausted:
  assumes "\<forall>k<4. retryable (nth_response net w u k)"
  shows "inner_get net u w = (Inr None, after_attempts w u 4 4)"
  using inner_get_skip[of 4 net w u] assms by simp

lemma inner_get_stop:
  assumes n: "n < 4" and re: "\<forall>k<n. retryable (nth_response net w u k)"
    and last: "\<not> retryable (nth_response net w u n)"
  shows "inner_get net u w =
     (case nth_response net w u n of
        Inl e \<Rightarrow> Inl e
      | Inr r \<Rightarrow> Inr (if is_success r then Some r else None),
      after_attempts w u (Suc n) n)"
proof -
  have "inner_get net u w = get_attempts net u [n..<4] (after_attempts w u n n)"
    using inner_get_skip[of n net w u] n re by simp
  moreover have "[n..<4] = n # [Suc n..<4]" using n by (simp add: upt_conv_Cons)
  moreover have "net (requests (after_attempts w u n n)) u = nth_response net w u n"
    by (simp add: after_attempts_def nth_response_def)
  moreover have "(after_attempts w u n n)\<lparr>requests := requests (after_attempts w u n n) @ [u]\<rparr>
      = after_attempts w u (Suc n) n"
    by (simp add: after_attempts_def replicate_append_same)
  ultimately show ?thesis
    using last
    by (auto simp: retryable_def Let_def split: sum.splits)
qed

lemma get_attempts_requests:
  "get_attempts net u as w = (r, w') \<Longrightarrow>
   prefix (requests w) (requests w') \<and> (as \<noteq> [] \<longrightarrow> prefix (requests w @ [u]) (requests w'))"
proof (induction as arbitrary: w)
  case Nil
  then show ?case by simp
next
  case (Cons a as)
  show ?case
  proof (cases "retryable (net (requests w) u)")
    case True
    then obtain x where x: "net (requests w) u = Inr x"
      "status_code x = 429 \<or> (500 \<le> status_code x \<and> status_code x < 600)"
      by (auto simp: retryable_def split: sum.splits)
    let ?w1 = "w\<lparr>requests := requests w @ [u], sleeps := sleeps w @ [0.5 * 2 ^ a]\<rparr>"
    from Cons.prems x have "get_attempts net u as ?w1 = (r, w')"
      by (simp add: Let_def)
    from Cons.IH[OF this] have "prefix (requests w @ [u]) (requests w')" by simp
    then show ?thesis by (auto dest: append_prefixD)
  next
    case False
    with Cons.prems have "requests w' = requests w @ [u]"
      by (auto simp: retryable_def Let_def split: sum.splits if_splits)
    then show ?thesis by simp
  qed
qed

lemma inner_get_requests:
  "inner_get net u w = (r, w') \<Longrightarrow> prefix (requests w @ [u]) (requests w')"
  using get_attempts_requests[of net u "[0..<4]" w r w'] by (simp add: inner_get_def upt_conv_Cons)

lemma map_of_dict_set: "map_of (dict_set k v kvs) k' = (if k' = k then Some v else map_of kvs k')"
  by (induction kvs) auto

lemma cache_get_set: "cache_get (cache_set dc u d) v = (if v = u then Some d else cache_get dc v)"
  by (simp add: cache_get_def cache_set_def map_of_dict_set)

lemma fetch_cached:
  "cache_get dc u = Some d \<Longrightarrow> fetch_markdown_content net u (dc, w) = (Inr (Some d), dc, w)"
  by (simp add: fetch_markdown_content_def)

lemma fetch_result:
  assumes "fetch_markdown_content net u (dc, w) = (r, dc1, w1)"
  shows "(case r of
            Inr (Some d) \<Rightarrow> cache_get dc1 u = Some d
          | _ \<Rightarrow> dc1 = dc \<and> cache_get dc u = None)
         \<and> (\<forall>v. v \<noteq> u \<longrightarrow> cache_get dc1 v = cache_get dc v)
         \<and> (cache_get dc u = None \<longrightarrow> prefix (requests w @ [md_variant u]) (requests w1))"
proof (cases "cache_get dc u")
  case (Some d)
  with assms show ?thesis by (auto simp: fetch_cached)
next
  case None
  obtain r1 w1' where g1: "inner_get net (md_variant u) w = (r1, w1')"
    by (cases "inner_get net (md_variant u) w")
  note p1 = inner_get_requests[OF g1]
  obtain r2 w2 where g2: "inner_get net u w1' = (r2, w2)"
    by (cases "inner_get net u w1'")
  from inner_get_requests[OF g2] have p2: "prefix (requests w1') (requests w2)"
    by (auto dest: append_prefixD)
  from p1 p2 have p12: "prefix (requests w @ [md_variant u]) (requests w2)"
    by (rule prefix_order.trans)
  from assms None g1 g2 p1 p12 show ?thesis
    unfolding fetch_markdown_content_def md_variant_def[symmetric]
    by (auto simp: Let_def store_document_def cache_get_set md_variant_def
             split: option.splits sum.splits if_splits prod.splits)
qed

lemma inner_get_at_most_4:
  "\<exists>n\<le>4. 1 \<le> n \<and> requests (snd (inner_get net u w)) = requests w @ replicate n u"
proof (cases "\<forall>k<4. retryable (nth_response net w u k)")
  case True
  from inner_get_exhausted[OF True] show ?thesis
    by (intro exI[of _ 4]) (simp add: after_attempts_def)
next
  case False
  define n where "n = (LEAST k. \<not> retryable (nth_response net w u k))"
  from False obtain k0 where k0: "k0 < 4" "\<not> retryable (nth_response net w u k0)" by blast
  have last: "\<not> retryable (nth_response net w u n)"
    unfolding n_def using k0(2) by (rule LeastI)
  have "n \<le> k0" unfolding n_def using k0(2) by (rule Least_le)
  with k0 have n4: "n < 4" by simp
  have before: "\<forall>k<n. retryable (nth_response net w u k)"
    unfolding n_def using not_less_Least by blast
  from inner_get_stop[OF n4 before last] n4 show ?thesis
    by (intro exI[of _ "Suc n"]) (simp add: after_attempts_def)
qed

lemma fetch_exhausted:
  assumes "cache_get dc u = None" "\<forall>h v. retryable (net h v)"
  shows "fetch_markdown_content net u (dc, w) =
           (Inr None, dc, after_attempts (after_attempts w (md_variant u) 4 4) u 4 4)"
proof -
  have a: "inner_get net v w' = (Inr None, after_attempts w' v 4 4)" for v w'
    using assms(2) by (intro inner_get_exhausted) (simp add: nth_response_def)
  show ?thesis
    using assms(1)
    by (simp add: fetch_markdown_content_def md_variant_def[symmetric] a)
qed

lemma fetch_raises:
  assumes "cache_get dc u = None" "nth_response net w (md_variant u) 0 = Inl e"
  shows "fetch_markdown_content net u (dc, w) = (Inl e, dc, after_attempts w (md_variant u) 1 0)"
proof -
  have "\<not> retryable (nth_response net w (md_variant u) 0)"
    using assms(2) by (simp add: retryable_def)
  from inner_get_stop[of 0 net w "md_variant u", OF _ _ this] assms(2)
  have "inner_get net (md_variant u) w = (Inl e, after_attempts w (md_variant u) 1 0)"
    by simp
  then show ?thesis
    using assms(1)
    by (simp add: fetch_markdown_content_def md_variant_def[symmetric])
qed


lemma fetch_not_found_again:
  assumes f: "fetch_markdown_content net u (dc, w) = (Inr None, dc1, w1)"
  shows "prefix (requests w1 @ [md_variant u])
           (requests (snd (snd (fetch_markdown_content net2 u (dc1, w1)))))"
proof -
  from fetch_result[OF f] have un: "cache_get dc1 u = None" by simp
  obtain r2 dc2 w2 where f2: "fetch_markdown_content net2 u (dc1, w1) = (r2, dc2, w2)"
    by (cases "fetch_markdown_content net2 u (dc1, w1)")
  from fetch_result[OF f2] un show ?thesis by (simp add: f2)
qed

lemma fetch_first_raises:
  assumes "cache_get dc u = None" "inner_get net (md_variant u) w = (Inl e, wa)"
  shows "fetch_markdown_content net u (dc, w) = (Inl e, dc, wa)"
  using assms by (simp add: fetch_markdown_content_def md_variant_def[symmetric])

lemma fetch_second:
  assumes "cache_get dc u = None" "inner_get net (md_variant u) w = (Inr ra, wa)"
    "case ra of None \<Rightarrow> True | Some r' \<Rightarrow> \<not> markdownish r'"
  shows "(inner_get net u wa = (Inl e, wb) \<longrightarrow> fetch_markdown_content net u (dc, w) = (Inl e, dc, wb))
       \<and> (inner_get net u wa = (Inr None, wb) \<longrightarrow>
            fetch_markdown_content net u (dc, w) = (Inr None, dc, wb))"
  using assms
  by (auto simp add: fetch_markdown_content_def md_variant_def[symmetric] split: option.splits)

text \<open>
  C3 (idempotent fetch), amended. A URL that is in the store is answered with the stored
  document: the store and the world are unchanged, so no GET is issued and nothing is
  slept or processed again. Hence, after a call that returned a document, a second call
  for the same URL returns the same document, whatever the network does then, and accesses
  the network no more: of the two calls, only the first retrieved from the network. After
  a call that returned NotFound the second call goes to the network again, beginning with
  the GET of the markdown variant.
\<close>

theorem idempotent_fetch:
  "(cache_get dc u = Some d \<longrightarrow>
      fetch_markdown_content net u (dc, w) = (Inr (Some d), dc, w))
   \<and> (fetch_markdown_content net u (dc, w) = (Inr (Some d), dc1, w1) \<longrightarrow>
      fetch_markdown_content net2 u (dc1, w1) = (Inr (Some d), dc1, w1))
   \<and> (fetch_markdown_content net u (dc, w) = (Inr None, dc1, w1) \<longrightarrow>
      prefix (requests w1 @ [md_variant u])
        (requests (snd (snd (fetch_markdown_content net2 u (dc1, w1))))))"
proof (intro conjI impI)
  assume "cache_get dc u = Some d"
  then show "fetch_markdown_content net u (dc, w) = (Inr (Some d), dc, w)"
    by (rule fetch_cached)
next
  assume "fetch_markdown_content net u (dc, w) = (Inr (Some d), dc1, w1)"
  from fetch_result[OF this] have "cache_get dc1 u = Some d" by simp
  then show "fetch_markdown_content net2 u (dc1, w1) = (Inr (Some d), dc1, w1)"
    by (rule fetch_cached)
next
  assume "fetch_markdown_content net u (dc, w) = (Inr None, dc1, w1)"
  then show "prefix (requests w1 @ [md_variant u])
        (requests (snd (snd (fetch_markdown_content net2 u (dc1, w1)))))"
    by (rule fetch_not_found_again)
qed

text \<open>
  C3, as stated: two calls for any URL make at most one network retrieval. On the code a
  URL whose first call returns NotFound is requested from the network by the second call
  as well: both calls issue the two GETs.
\<close>

theorem second_fetch_retries_counterexample:
  "fetch_markdown_content
       (\<lambda>h v. Inr \<lparr>status_code = 404, content_type = Some ''text/html'', resp_text = ''not found''\<rparr>)
       ''p''
       (\<lparr>cache = [], embeddings = None, documents = []\<rparr>, \<lparr>requests = [], sleeps = []\<rparr>)
     = (Inr None, \<lparr>cache = [], embeddings = None, documents = []\<rparr>,
        \<lparr>requests = [''p.md'', ''p''], sleeps = []\<rparr>)
   \<and> fetch_markdown_content
       (\<lambda>h v. Inr \<lparr>status_code = 404, content_type = Some ''text/html'', resp_text = ''not found''\<rparr>)
       ''p''
       (\<lparr>cache = [], embeddings = None, documents = []\<rparr>,
        \<lparr>requests = [''p.md'', ''p''], sleeps = []\<rparr>)
     = (Inr None, \<lparr>cache = [], embeddings = None, documents = []\<rparr>,
        \<lparr>requests = [''p.md'', ''p'', ''p.md'', ''p''], sleeps = []\<rparr>)"
  by code_simp


theorem idempotent_fetch_witness:
  "cache_get \<lparr>cache = [(''p'', \<lparr>url = ''p'', markdown_url = ''p.md'', title = ''T'', description = [],
                    content = ''# T'', raw_content = ''# T'',
                    chunks_of = [\<lparr>heading = ''T'', markdown = ''# T''\<rparr>]\<rparr>)],
          embeddings = None, documents = []\<rparr> ''p''
     = Some \<lparr>url = ''p'', markdown_url = ''p.md'', title = ''T'', description = [],
                    content = ''# T'', raw_content = ''# T'',
                    chunks_of = [\<lparr>heading = ''T'', markdown = ''# T''\<rparr>]\<rparr>
   \<and> fetch_markdown_content
       (\<lambda>h v. Inr \<lparr>status_code = 200, content_type = Some ''text/markdown'', resp_text = ''# T''\<rparr>)
       ''p''
       (\<lparr>cache = [], embeddings = None, documents = []\<rparr>, \<lparr>requests = [], sleeps = []\<rparr>)
     = (Inr (Some \<lparr>url = ''p'', markdown_url = ''p.md'', title = ''T'', description = [],
                    content = ''# T'', raw_content = ''# T'',
                    chunks_of = [\<lparr>heading = ''T'', markdown = ''# T''\<rparr>]\<rparr>),
        \<lparr>cache = [(''p'', \<lparr>url = ''p'', markdown_url = ''p.md'', title = ''T'', description = [],
                    content = ''# T'', raw_content = ''# T'',
                    chunks_of = [\<lparr>heading = ''T'', markdown = ''# T''\<rparr>]\<rparr>)],
          embeddings = None, documents = []\<rparr>,
        \<lparr>requests = [''p.md''], sleeps = []\<rparr>)
   \<and> fetch_markdown_content (\<lambda>h v. Inl (HttpError ''ConnectError'')) ''p''
       (\<lparr>cache = [(''p'', \<lparr>url = ''p'', markdown_url = ''p.md'', title = ''T'', description = [],
                    content = ''# T'', raw_content = ''# T'',
                    chunks_of = [\<lparr>heading = ''T'', markdown = ''# T''\<rparr>]\<rparr>)],
          embeddings = None, documents = []\<rparr>,
        \<lparr>requests = [''p.md''], sleeps = []\<rparr>)
     = (Inr (Some \<lparr>url = ''p'', markdown_url = ''p.md'', title = ''T'', description = [],
                    content = ''# T'', raw_content = ''# T'',
                    chunks_of = [\<lparr>heading = ''T'', markdown = ''# T''\<rparr>]\<rparr>),
        \<lparr>cache = [(''p'', \<lparr>url = ''p'', markdown_url = ''p.md'', title = ''T'', description = [],
                    content = ''# T'', raw_content = ''# T'',
                    chunks_of = [\<lparr>heading = ''T'', markdown = ''# T''\<rparr>]\<rparr>)],
          embeddings = None, documents = []\<rparr>,
        \<lparr>requests = [''p.md''], sleeps = []\<rparr>)
   \<and> fetch_markdown_content
       (\<lambda>h v. Inr \<lparr>status_code = 404, content_type = Some ''text/html'', resp_text = ''not found''\<rparr>)
       ''p''
       (\<lparr>cache = [], embeddings = None, documents = []\<rparr>, \<lparr>requests = [], sleeps = []\<rparr>)
     = (Inr None, \<lparr>cache = [], embeddings = None, documents = []\<rparr>,
        \<lparr>requests = [''p.md'', ''p''], sleeps = []\<rparr>)
   \<and> prefix [''p.md'', ''p'', ''p.md'']
        (requests (snd (snd (fetch_markdown_content
           (\<lambda>h v. Inr \<lparr>status_code = 200, content_type = Some ''text/markdown'', resp_text = ''# T''\<rparr>)
           ''p''
           (\<lparr>cache = [], embeddings = None, documents = []\<rparr>,
            \<lparr>requests = [''p.md'', ''p''], sleeps = []\<rparr>)))))"
proof -
  have first: "fetch_markdown_content
       (\<lambda>h v. Inr \<lparr>status_code = 200, content_type = Some ''text/markdown'', resp_text = ''# T''\<rparr>)
       ''p''
       (\<lparr>cache = [], embeddings = None, documents = []\<rparr>, \<lparr>requests = [], sleeps = []\<rparr>)
     = (Inr (Some \<lparr>url = ''p'', markdown_url = ''p.md'', title = ''T'', description = [],
                    content = ''# T'', raw_content = ''# T'',
                    chunks_of = [\<lparr>heading = ''T'', markdown = ''# T''\<rparr>]\<rparr>),
        \<lparr>cache = [(''p'', \<lparr>url = ''p'', markdown_url = ''p.md'', title = ''T'', description = [],
                    content = ''# T'', raw_content = ''# T'',
                    chunks_of = [\<lparr>heading = ''T'', markdown = ''# T''\<rparr>]\<rparr>)],
          embeddings = None, documents = []\<rparr>,
        \<lparr>requests = [''p.md''], sleeps = []\<rparr>)"
    by code_simp
  have stored: "cache_get \<lparr>cache = [(''p'', \<lparr>url = ''p'', markdown_url = ''p.md'', title = ''T'', description = [],
                    content = ''# T'', raw_content = ''# T'',
                    chunks_of = [\<lparr>heading = ''T'', markdown = ''# T''\<rparr>]\<rparr>)],
          embeddings = None, documents = []\<rparr> ''p''
     = Some \<lparr>url = ''p'', markdown_url = ''p.md'', title = ''T'', description = [],
                    content = ''# T'', raw_content = ''# T'',
                    chunks_of = [\<lparr>heading = ''T'', markdown = ''# T''\<rparr>]\<rparr>"
    by (simp add: cache_get_def)
  from idempotent_fetch
    [of _ _ _ "\<lambda>h v. Inr \<lparr>status_code = 200, content_type = Some ''text/markdown'', resp_text = ''# T''\<rparr>"
        _ _ _ "\<lambda>h v. Inl (HttpError ''ConnectError'')"] first stored
  have hits: "cache_get \<lparr>cache = [(''p'', \<lparr>url = ''p'', markdown_url = ''p.md'', title = ''T'', description = [],
                    content = ''# T'', raw_content = ''# T'',
                    chunks_of = [\<lparr>heading = ''T'', markdown = ''# T''\<rparr>]\<rparr>)],
          embeddings = None, documents = []\<rparr> ''p''
     = Some \<lparr>url = ''p'', markdown_url = ''p.md'', title = ''T'', description = [],
                    content = ''# T'', raw_content = ''# T'',
                    chunks_of = [\<lparr>heading = ''T'', markdown = ''# T''\<rparr>]\<rparr>
   \<and> fetch_markdown_content
       (\<lambda>h v. Inr \<lparr>status_code = 200, content_type = Some ''text/markdown'', resp_text = ''# T''\<rparr>)
       ''p''
       (\<lparr>cache = [], embeddings = None, documents = []\<rparr>, \<lparr>requests = [], sleeps = []\<rparr>)
     = (Inr (Some \<lparr>url = ''p'', markdown_url = ''p.md'', title = ''T'', description = [],
                    content = ''# T'', raw_content = ''# T'',
                    chunks_of = [\<lparr>heading = ''T'', markdown = ''# T''\<rparr>]\<rparr>),
        \<lparr>cache = [(''p'', \<lparr>url = ''p'', markdown_url = ''p.md'', title = ''T'', description = [],
                    content = ''# T'', raw_content = ''# T'',
                    chunks_of = [\<lparr>heading = ''T'', markdown = ''# T''\<rparr>]\<rparr>)],
          embeddings = None, documents = []\<rparr>,
        \<lparr>requests = [''p.md''], sleeps = []\<rparr>)
   \<and> fetch_markdown_content (\<lambda>h v. Inl (HttpError ''ConnectError'')) ''p''
       (\<lparr>cache = [(''p'', \<lparr>url = ''p'', markdown_url = ''p.md'', title = ''T'', description = [],
                    content = ''# T'', raw_content = ''# T'',
                    chunks_of = [\<lparr>heading = ''T'', markdown = ''# T''\<rparr>]\<rparr>)],
          embeddings = None, documents = []\<rparr>,
        \<lparr>requests = [''p.md''], sleeps = []\<rparr>)
     = (Inr (Some \<lparr>url = ''p'', markdown_url = ''p.md'', title = ''T'', description = [],
                    content = ''# T'', raw_content = ''# T'',
                    chunks_of = [\<lparr>heading = ''T'', markdown = ''# T''\<rparr>]\<rparr>),
        \<lparr>cache = [(''p'', \<lparr>url = ''p'', markdown_url = ''p.md'', title = ''T'', description = [],
                    content = ''# T'', raw_content = ''# T'',
                    chunks_of = [\<lparr>heading = ''T'', markdown = ''# T''\<rparr>]\<rparr>)],
          embeddings = None, documents = []\<rparr>,
        \<lparr>requests = [''p.md''], sleeps = []\<rparr>)"
    by blast
  have miss: "fetch_markdown_content
       (\<lambda>h v. Inr \<lparr>status_code = 404, content_type = Some ''text/html'', resp_text = ''not found''\<rparr>)
       ''p''
       (\<lparr>cache = [], embeddings = None, documents = []\<rparr>, \<lparr>requests = [], sleeps = []\<rparr>)
     = (Inr None, \<lparr>cache = [], embeddings = None, documents = []\<rparr>,
        \<lparr>requests = [''p.md'', ''p''], sleeps = []\<rparr>)"
    by code_simp
  have md: "md_variant ''p'' = ''p.md''" by code_simp
  from idempotent_fetch
         [of _ _ _ _ _ _ _
             "\<lambda>h v. Inr \<lparr>status_code = 200, content_type = Some ''text/markdown'',
                               resp_text = ''# T''\<rparr>",
          THEN conjunct2, THEN conjunct2, THEN mp, OF miss] md
  have again: "prefix [''p.md'', ''p'', ''p.md'']
        (requests (snd (snd (fetch_markdown_content
           (\<lambda>h v. Inr \<lparr>status_code = 200, content_type = Some ''text/markdown'', resp_text = ''# T''\<rparr>)
           ''p''
           (\<lparr>cache = [], embeddings = None, documents = []\<rparr>,
            \<lparr>requests = [''p.md'', ''p''], sleeps = []\<rparr>)))))"
    by simp
  from hits miss again show ?thesis by (intro conjI) (elim conjE, assumption)+
qed

text \<open>
  C9 (failure is not memoized). A call that returns NotFound leaves the store as it was
  and the URL absent from it, so the next call for that URL goes to the network again,
  beginning with the GET of the markdown variant. A URL that was absent is present after
  a call only if the call returned its document; the entries of other URLs never change.
\<close>

theorem failure_not_memoized:
  "fetch_markdown_content net u (dc, w) = (r, dc1, w1) \<Longrightarrow>
   (r = Inr None \<longrightarrow>
      dc1 = dc \<and> cache_get dc1 u = None \<and>
      (\<forall>net2. prefix (requests w1 @ [md_variant u])
                 (requests (snd (snd (fetch_markdown_content net2 u (dc1, w1)))))))
   \<and> (cache_get dc u = None \<and> cache_get dc1 u \<noteq> None \<longrightarrow> (\<exists>d. r = Inr (Some d) \<and> cache_get dc1 u = Some d))
   \<and> (\<forall>v. v \<noteq> u \<longrightarrow> cache_get dc1 v = cache_get dc v)"
proof (intro conjI impI allI)
  assume f: "fetch_markdown_content net u (dc, w) = (r, dc1, w1)"
  note res = fetch_result[OF f]
  {
    assume r: "r = Inr None"
    with res show a: "dc1 = dc" by simp
    from r res show b: "cache_get dc1 u = None" by simp
    fix net2
    obtain r2 dc2 w2 where f2: "fetch_markdown_content net2 u (dc1, w1) = (r2, dc2, w2)"
      by (cases "fetch_markdown_content net2 u (dc1, w1)")
    from fetch_result[OF f2] b
    show "prefix (requests w1 @ [md_variant u])
            (requests (snd (snd (fetch_markdown_content net2 u (dc1, w1)))))"
      by (simp add: f2)
  }
  {
    assume "cache_get dc u = None \<and> cache_get dc1 u \<noteq> None"
    with res show "\<exists>d. r = Inr (Some d) \<and> cache_get dc1 u = Some d"
      by (auto split: sum.splits option.splits)
  }
  {
    fix v assume "v \<noteq> u"
    with res show "cache_get dc1 v = cache_get dc v" by simp
  }
qed

theorem failure_not_memoized_witness:
  "fetch_markdown_content
       (\<lambda>h v. Inr \<lparr>status_code = 404, content_type = Some ''text/html'', resp_text = ''not found''\<rparr>)
       ''p''
       (\<lparr>cache = [], embeddings = None, documents = []\<rparr>, \<lparr>requests = [], sleeps = []\<rparr>)
     = (Inr None, \<lparr>cache = [], embeddings = None, documents = []\<rparr>,
        \<lparr>requests = [''p.md'', ''p''], sleeps = []\<rparr>)
   \<and> cache_get \<lparr>cache = [], embeddings = None, documents = []\<rparr> ''p'' = None
   \<and> prefix [''p.md'', ''p'', ''p.md'']
        (requests (snd (snd (fetch_markdown_content
           (\<lambda>h v. Inr \<lparr>status_code = 200, content_type = Some ''text/markdown'', resp_text = ''# T''\<rparr>)
           ''p''
           (\<lparr>cache = [], embeddings = None, documents = []\<rparr>,
            \<lparr>requests = [''p.md'', ''p''], sleeps = []\<rparr>)))))
   \<and> (\<exists>d. fst (fetch_markdown_content
           (\<lambda>h v. Inr \<lparr>status_code = 200, content_type = Some ''text/markdown'', resp_text = ''# T''\<rparr>)
           ''p''
           (\<lparr>cache = [], embeddings = None, documents = []\<rparr>, \<lparr>requests = [], sleeps = []\<rparr>))
          = Inr (Some d))"
proof -
  have miss: "fetch_markdown_content
       (\<lambda>h v. Inr \<lparr>status_code = 404, content_type = Some ''text/html'', resp_text = ''not found''\<rparr>)
       ''p''
       (\<lparr>cache = [], embeddings = None, documents = []\<rparr>, \<lparr>requests = [], sleeps = []\<rparr>)
     = (Inr None, \<lparr>cache = [], embeddings = None, documents = []\<rparr>,
        \<lparr>requests = [''p.md'', ''p''], sleeps = []\<rparr>)"
    by code_simp
  have md: "md_variant ''p'' = ''p.md''"
    by code_simp
  let ?net = "\<lambda>(h::string list) (v::string).
     (Inr \<lparr>status_code = 200, content_type = Some ''text/markdown'', resp_text = ''# T''\<rparr>
        :: exn + response)"
  let ?dc = "\<lparr>cache = [], embeddings = None, documents = []\<rparr>"
  let ?w = "\<lparr>requests = [], sleeps = []\<rparr>"
  have a: "cache_get ?dc ''p'' = None" by (simp add: cache_get_def)
  have b: "cache_get (fst (snd (fetch_markdown_content ?net ''p'' (?dc, ?w)))) ''p'' \<noteq> None"
    by code_simp
  have run: "fetch_markdown_content ?net ''p'' (?dc, ?w)
     = (fst (fetch_markdown_content ?net ''p'' (?dc, ?w)),
        fst (snd (fetch_markdown_content ?net ''p'' (?dc, ?w))),
        snd (snd (fetch_markdown_content ?net ''p'' (?dc, ?w))))" by simp
  from failure_not_memoized[OF run] a b
  have hit: "\<exists>d. fst (fetch_markdown_content ?net ''p'' (?dc, ?w)) = Inr (Some d)" by blast
  from failure_not_memoized[OF miss] md
  have first: "prefix [''p.md'', ''p'', ''p.md'']
        (requests (snd (snd (fetch_markdown_content ?net ''p''
           (?dc, \<lparr>requests = [''p.md'', ''p''], sleeps = []\<rparr>)))))"
    by simp
  show ?thesis by (intro conjI) (rule miss a first hit)+
qed

text \<open>
  C4 (retry policy), amended. For one URL variant, \<open>_get\<close> issues between one and
  four GETs. The attempt numbered \<open>k\<close> (from 0) is followed by a sleep of
  \<open>0.5 * 2 ^ k\<close> and, unless it was the fourth, by another attempt, exactly when its
  status is 429 or in 500..599; a response of any other status ends the attempts at once,
  with the response when it is a success and with nothing otherwise. Four such statuses
  in a row give nothing for the variant, and when both variants are exhausted so, the fetch
  returns NotFound and the store is unchanged. An exception raised by a GET (a timeout) is
  not caught: it ends the fetch and reaches the caller, the store unchanged. In general,
  an exception that leaves \<open>_get\<close> for either variant leaves the fetch, and the fetch
  returns NotFound whenever the first variant gave no body that is accepted and
  \<open>_get\<close> gave nothing for the second.
\<close>

theorem retry_policy:
  "(n < 4 \<and> (\<forall>k<n. retryable (nth_response net w u k)) \<and> \<not> retryable (nth_response net w u n) \<longrightarrow>
      inner_get net u w =
        (case nth_response net w u n of
           Inl e \<Rightarrow> Inl e
         | Inr r \<Rightarrow> Inr (if is_success r then Some r else None),
         after_attempts w u (Suc n) n))
   \<and> ((\<forall>k<4. retryable (nth_response net w u k)) \<longrightarrow>
        inner_get net u w = (Inr None, after_attempts w u 4 4))
   \<and> (\<exists>n\<le>4. 1 \<le> n \<and> requests (snd (inner_get net u w)) = requests w @ replicate n u)
   \<and> (cache_get dc u = None \<and> (\<forall>h v. retryable (net h v)) \<longrightarrow>
        fetch_markdown_content net u (dc, w) =
          (Inr None, dc, after_attempts (after_attempts w (md_variant u) 4 4) u 4 4))
   \<and> (cache_get dc u = None \<and> nth_response net w (md_variant u) 0 = Inl e \<longrightarrow>
        fetch_markdown_content net u (dc, w) = (Inl e, dc, after_attempts w (md_variant u) 1 0))
   \<and> (cache_get dc u = None \<and> inner_get net (md_variant u) w = (Inl e, wa) \<longrightarrow>
        fetch_markdown_content net u (dc, w) = (Inl e, dc, wa))
   \<and> (cache_get dc u = None \<and> inner_get net (md_variant u) w = (Inr ra, wa)
        \<and> (case ra of None \<Rightarrow> True | Some r' \<Rightarrow> \<not> markdownish r')
        \<and> inner_get net u wa = (Inl e, wb) \<longrightarrow>
        fetch_markdown_content net u (dc, w) = (Inl e, dc, wb))
   \<and> (cache_get dc u = None \<and> inner_get net (md_variant u) w = (Inr ra, wa)
        \<and> (case ra of None \<Rightarrow> True | Some r' \<Rightarrow> \<not> markdownish r')
        \<and> inner_get net u wa = (Inr None, wb) \<longrightarrow>
        fetch_markdown_content net u (dc, w) = (Inr None, dc, wb))"
  using inner_get_stop[of n net w u] inner_get_exhausted[of net w u]
    inner_get_at_most_4[of net u w] fetch_exhausted[of dc u net w] fetch_raises[of dc u net w e]
    fetch_first_raises[of dc u net w e wa] fetch_second[of dc u net w ra wa e wb]
  by blast

text \<open>
  C4, as stated: a timeout degrades to NotFound. On the code a GET that raises a timeout
  makes the fetch raise it, here on the first GET.
\<close>

theorem timeout_propagates_counterexample:
  "fetch_markdown_content (\<lambda>h v. Inl (HttpError ''ReadTimeout'')) ''p''
     (\<lparr>cache = [], embeddings = None, documents = []\<rparr>, \<lparr>requests = [], sleeps = []\<rparr>)
   = (Inl (HttpError ''ReadTimeout''), \<lparr>cache = [], embeddings = None, documents = []\<rparr>,
      \<lparr>requests = [''p.md''], sleeps = []\<rparr>)"
  by code_simp

theorem retry_policy_witness:
  "inner_get
     (\<lambda>h v. if length h < 2 then Inr \<lparr>status_code = 429, content_type = None, resp_text = []\<rparr>
             else Inr \<lparr>status_code = 404, content_type = None, resp_text = []\<rparr>)
     ''p.md'' \<lparr>requests = [], sleeps = []\<rparr>
   = (Inr None, \<lparr>requests = [''p.md'', ''p.md'', ''p.md''], sleeps = [0.5, 1]\<rparr>)
   \<and> inner_get (\<lambda>h v. Inr \<lparr>status_code = 503, content_type = None, resp_text = []\<rparr>)
        ''p.md'' \<lparr>requests = [], sleeps = []\<rparr>
     = (Inr None, \<lparr>requests = [''p.md'', ''p.md'', ''p.md'', ''p.md''], sleeps = [0.5, 1, 2, 4]\<rparr>)
   \<and> fetch_markdown_content (\<lambda>h v. Inr \<lparr>status_code = 503, content_type = None, resp_text = []\<rparr>)
        ''p'' (\<lparr>cache = [], embeddings = None, documents = []\<rparr>, \<lparr>requests = [], sleeps = []\<rparr>)
     = (Inr None, \<lparr>cache = [], embeddings = None, documents = []\<rparr>,
        \<lparr>requests = [''p.md'', ''p.md'', ''p.md'', ''p.md'', ''p'', ''p'', ''p'', ''p''],
          sleeps = [0.5, 1, 2, 4, 0.5, 1, 2, 4]\<rparr>)
   \<and> fetch_markdown_content (\<lambda>h v. Inl (HttpError ''ReadTimeout''))
        ''p'' (\<lparr>cache = [], embeddings = None, documents = []\<rparr>, \<lparr>requests = [], sleeps = []\<rparr>)
     = (Inl (HttpError ''ReadTimeout''), \<lparr>cache = [], embeddings = None, documents = []\<rparr>,
        \<lparr>requests = [''p.md''], sleeps = []\<rparr>)
   \<and> fetch_markdown_content
      (\<lambda>h v. if v = ''p.md'' then Inr \<lparr>status_code = 404, content_type = None, resp_text = []\<rparr>
              else Inl (HttpError ''ReadTimeout''))
      ''p'' (\<lparr>cache = [], embeddings = None, documents = []\<rparr>, \<lparr>requests = [], sleeps = []\<rparr>)
     = (Inl (HttpError ''ReadTimeout''), \<lparr>cache = [], embeddings = None, documents = []\<rparr>,
        \<lparr>requests = [''p.md'', ''p''], sleeps = []\<rparr>)
   \<and> fetch_markdown_content
      (\<lambda>h v. if length h < 1 then Inr \<lparr>status_code = 429, content_type = None, resp_text = []\<rparr>
              else Inl (HttpError ''ReadTimeout''))
      ''p'' (\<lparr>cache = [], embeddings = None, documents = []\<rparr>, \<lparr>requests = [], sleeps = []\<rparr>)
     = (Inl (HttpError ''ReadTimeout''), \<lparr>cache = [], embeddings = None, documents = []\<rparr>,
        \<lparr>requests = [''p.md'', ''p.md''], sleeps = [0.5]\<rparr>)
   \<and> fetch_markdown_content
      (\<lambda>h v. Inr \<lparr>status_code = 404, content_type = None, resp_text = []\<rparr>)
      ''p'' (\<lparr>cache = [], embeddings = None, documents = []\<rparr>, \<lparr>requests = [], sleeps = []\<rparr>)
     = (Inr None, \<lparr>cache = [], embeddings = None, documents = []\<rparr>,
        \<lparr>requests = [''p.md'', ''p''], sleeps = []\<rparr>)"
proof -
  let ?net1 = "\<lambda>(h::string list) (v::string).
     if length h < 2 then Inr \<lparr>status_code = 429, content_type = None, resp_text = []\<rparr>
     else (Inr \<lparr>status_code = 404, content_type = None, resp_text = []\<rparr> :: exn + response)"
  let ?net2 = "\<lambda>(h::string list) (v::string).
     (Inr \<lparr>status_code = 503, content_type = None, resp_text = []\<rparr> :: exn + response)"
  let ?net3 = "\<lambda>(h::string list) (v::string). (Inl (HttpError ''ReadTimeout'') :: exn + response)"
  let ?w0 = "\<lparr>requests = [], sleeps = []\<rparr>"
  let ?dc0 = "\<lparr>cache = [], embeddings = None, documents = []\<rparr>"
  have upt2: "[0..<2] = [0, 1]" and upt4: "[0..<4] = [0, 1, 2, 3]"
    by (simp_all add: upt_conv_Cons)
  have md: "md_variant ''p'' = ''p.md''" by code_simp
  have uncached: "cache_get ?dc0 ''p'' = None" by (simp add: cache_get_def)
  have a1: "2 < (4::nat) \<and> (\<forall>k<2. retryable (nth_response ?net1 ?w0 ''p.md'' k))
        \<and> \<not> retryable (nth_response ?net1 ?w0 ''p.md'' 2)"
    by (simp add: nth_response_def retryable_def)
  have a2: "\<forall>h v. retryable (?net2 h v)"
    by (simp add: retryable_def)
  have a3: "nth_response ?net3 ?w0 (md_variant ''p'') 0 = Inl (HttpError ''ReadTimeout'')"
    by (simp add: nth_response_def)
  have c1: "inner_get ?net1 ''p.md'' ?w0 = (Inr None, \<lparr>requests = [''p.md'', ''p.md'', ''p.md''], sleeps = [0.5, 1]\<rparr>)"
    using retry_policy[of 2 ?net1 ?w0 "''p.md''"] a1
    by (simp add: nth_response_def after_attempts_def is_success_def upt2 numeral_3_eq_3)
  have c2: "inner_get ?net2 ''p.md'' ?w0
     = (Inr None, \<lparr>requests = [''p.md'', ''p.md'', ''p.md'', ''p.md''], sleeps = [0.5, 1, 2, 4]\<rparr>)"
    using retry_policy[of _ ?net2 ?w0 "''p.md''"] a2
    by (simp add: nth_response_def after_attempts_def upt4 eval_nat_numeral)
  have c3: "fetch_markdown_content ?net2 ''p'' (?dc0, ?w0)
     = (Inr None, ?dc0,
        \<lparr>requests = [''p.md'', ''p.md'', ''p.md'', ''p.md'', ''p'', ''p'', ''p'', ''p''],
          sleeps = [0.5, 1, 2, 4, 0.5, 1, 2, 4]\<rparr>)"
    using retry_policy[of _ ?net2 ?w0 "''p''" ?dc0] a2 uncached
    by (simp add: md after_attempts_def upt4 eval_nat_numeral)
  have c4: "fetch_markdown_content ?net3 ''p'' (?dc0, ?w0)
     = (Inl (HttpError ''ReadTimeout''), ?dc0, \<lparr>requests = [''p.md''], sleeps = []\<rparr>)"
    using retry_policy[of _ ?net3 ?w0 "''p''" ?dc0 "HttpError ''ReadTimeout''"] a3 uncached
    by (simp add: md after_attempts_def)
  let ?net4 = "\<lambda>(h::string list) (v::string).
     if v = ''p.md'' then Inr \<lparr>status_code = 404, content_type = None, resp_text = []\<rparr>
     else (Inl (HttpError ''ReadTimeout'') :: exn + response)"
  let ?net5 = "\<lambda>(h::string list) (v::string).
     if length h < 1 then Inr \<lparr>status_code = 429, content_type = None, resp_text = []\<rparr>
     else (Inl (HttpError ''ReadTimeout'') :: exn + response)"
  let ?net6 = "\<lambda>(h::string list) (v::string).
     (Inr \<lparr>status_code = 404, content_type = None, resp_text = []\<rparr> :: exn + response)"
  have g4a: "inner_get ?net4 (md_variant ''p'') ?w0 = (Inr None, \<lparr>requests = [''p.md''], sleeps = []\<rparr>)"
    by code_simp
  have g4b: "inner_get ?net4 ''p'' \<lparr>requests = [''p.md''], sleeps = []\<rparr>
      = (Inl (HttpError ''ReadTimeout''), \<lparr>requests = [''p.md'', ''p''], sleeps = []\<rparr>)"
    by code_simp
  have none: "(case (None :: response option) of None \<Rightarrow> True | Some r' \<Rightarrow> \<not> markdownish r')"
    by simp
  have g5: "inner_get ?net5 (md_variant ''p'') ?w0
      = (Inl (HttpError ''ReadTimeout''), \<lparr>requests = [''p.md'', ''p.md''], sleeps = [0.5]\<rparr>)"
    by code_simp
  have g6a: "inner_get ?net6 (md_variant ''p'') ?w0 = (Inr None, \<lparr>requests = [''p.md''], sleeps = []\<rparr>)"
    by code_simp
  have g6b: "inner_get ?net6 ''p'' \<lparr>requests = [''p.md''], sleeps = []\<rparr>
      = (Inr None, \<lparr>requests = [''p.md'', ''p''], sleeps = []\<rparr>)"
    by code_simp
  note th4 = retry_policy[where net = ?net4 and w = ?w0 and u = "''p''" and dc = ?dc0]
  from th4 uncached g4a none g4b
  have c5: "fetch_markdown_content ?net4 ''p'' (?dc0, ?w0)
     = (Inl (HttpError ''ReadTimeout''), ?dc0, \<lparr>requests = [''p.md'', ''p''], sleeps = []\<rparr>)"
    by blast
  note th5 = retry_policy[where net = ?net5 and w = ?w0 and u = "''p''" and dc = ?dc0]
  from th5 uncached g5
  have c6: "fetch_markdown_content ?net5 ''p'' (?dc0, ?w0)
     = (Inl (HttpError ''ReadTimeout''), ?dc0, \<lparr>requests = [''p.md'', ''p.md''], sleeps = [0.5]\<rparr>)"
    by blast
  note th6 = retry_policy[where net = ?net6 and w = ?w0 and u = "''p''" and dc = ?dc0]
  from th6 uncached g6a none g6b
  have c7: "fetch_markdown_content ?net6 ''p'' (?dc0, ?w0)
     = (Inr None, ?dc0, \<lparr>requests = [''p.md'', ''p''], sleeps = []\<rparr>)"
    by blast
  show ?thesis by (intro conjI) (rule c1 c2 c3 c4 c5 c6 c7)+
qed



section \<open>Properties of warmup\<close>













section \<open>Properties of search\<close>

lemma str_count_not_contains: "\<not> contains s sub \<Longrightarrow> str_count s sub = 0"
proof (induction s sub rule: str_count.induct)
  case (1 s)
  then show ?case by (cases s) simp_all
next
  case (2 d ds)
  then show ?case by simp
next
  case (3 c cs d ds)
  then show ?case by simp
qed

lemma lexical_score_eq:
  "lexical_score q d = lexical_score_spec q (lower (title d)) (lower (description d)) (lower (content d))"
  by (simp add: lexical_score_def lexical_score_spec_def Let_def str_count_not_contains)

lemma descending_sort_key:
  "descending (map similarity (sort_key (\<lambda>x. - similarity x) xs))"
proof -
  have "sorted (map (\<lambda>x. - similarity x) (sort_key (\<lambda>x. - similarity x) xs))"
    by (rule sorted_sort_key)
  then show ?thesis
    unfolding descending_def
    by (simp add: sorted_wrt_map)
qed

lemma descending_take: "descending xs \<Longrightarrow> descending (take n xs)"
  unfolding descending_def by (rule sorted_wrt_take)

lemma slice_to_take: "\<exists>n. slice_to k xs = take n xs"
  by (auto simp: slice_to_def)

lemma map_slice_to: "map f (slice_to k xs) = slice_to k (map f xs)"
  by (simp add: slice_to_def take_map)

lemma descending_slice_to: "descending xs \<Longrightarrow> descending (slice_to k xs)"
  using slice_to_take[of k xs] descending_take by auto

lemma length_slice_to: "0 \<le> k \<Longrightarrow> int (length (slice_to k xs)) \<le> k"
  by (simp add: slice_to_def)

lemma simple_search_eq:
  "simple_search dc query limit =
     slice_to limit (sort_key (\<lambda>x. - similarity x)
       (map (\<lambda>d. DocHit d (real (lexical_score (lower query) d) / 10))
          (filter (\<lambda>d. 0 < lexical_score (lower query) d) (map snd (cache dc)))))"
proof -
  have h: "concat (map (\<lambda>(u, doc_data).
                       if 0 < lexical_score q doc_data
                       then [DocHit doc_data (real (lexical_score q doc_data) / 10)] else []) kvs)
        = map (\<lambda>d. DocHit d (real (lexical_score q d) / 10))
            (filter (\<lambda>d. 0 < lexical_score q d) (map snd kvs))" for q kvs
    by (induction kvs) auto
  show ?thesis by (simp add: simple_search_def Let_def h)
qed

lemma simple_search_descending: "descending (map similarity (simple_search dc query limit))"
  unfolding simple_search_eq map_slice_to
  by (intro descending_slice_to descending_sort_key)

lemma search_documents_None:
  "search_documents None dash argsort query limit dc = (Inr (simple_search dc query limit), dc)"
  by (simp add: search_documents_def build_embeddings_def)

lemma simple_search_single:
  assumes "cache dc = [(u, d)]" "0 < lexical_score (lower query) d" "1 \<le> limit"
  shows "simple_search dc query limit = [DocHit d (real (lexical_score (lower query) d) / 10)]"
  using assms by (simp add: simple_search_eq slice_to_def)

text \<open>
  C8 (lexical fallback scoring), amended. Without an embedding model a search is the
  lexical search. The score of a stored document is 3 if the query in lower case is a
  substring of the title in lower case, plus 2 if it is a substring of the description in
  lower case, plus the number of its occurrences, counted without overlap, in the content
  in lower case. The documents of score 0 are left out, the similarity is the score
  divided by 10, the results are in descending order of similarity, those of equal
  similarity in the order of the store, and cut by \<open>[:limit]\<close>: at most \<open>limit\<close> of
  them when \<open>limit\<close> is not negative. A store of one document titled \<open>Auth Guide\<close>,
  with the query \<open>Auth\<close> absent from the description and twice in the content, gives the
  similarity 0.5.
\<close>

theorem lexical_fallback_scoring:
  "lexical_score (lower query) d =
     3 * (if contains (lower (title d)) (lower query) then 1 else 0)
     + 2 * (if contains (lower (description d)) (lower query) then 1 else 0)
     + str_count (lower (content d)) (lower query)
   \<and> simple_search dc query limit =
       slice_to limit (sort_key (\<lambda>x. - similarity x)
         (map (\<lambda>d. DocHit d (real (lexical_score (lower query) d) / 10))
            (filter (\<lambda>d. 0 < lexical_score (lower query) d) (map snd (cache dc)))))
   \<and> descending (map similarity (simple_search dc query limit))
   \<and> (0 \<le> limit \<longrightarrow> int (length (simple_search dc query limit)) \<le> limit)
   \<and> search_documents None dash argsort query limit dc
       = (Inr (simple_search dc query limit), dc)
   \<and> (cache dc = [(u, d)] \<and> title d = ''Auth Guide''
        \<and> \<not> contains (lower (description d)) (lower ''Auth'')
        \<and> str_count (lower (content d)) (lower ''Auth'') = 2 \<and> 1 \<le> limit \<longrightarrow>
        simple_search dc ''Auth'' limit = [DocHit d 0.5])"
proof (intro conjI impI)
  show "lexical_score (lower query) d =
     3 * (if contains (lower (title d)) (lower query) then 1 else 0)
     + 2 * (if contains (lower (description d)) (lower query) then 1 else 0)
     + str_count (lower (content d)) (lower query)"
    by (simp add: lexical_score_eq lexical_score_spec_def)
  show "simple_search dc query limit =
       slice_to limit (sort_key (\<lambda>x. - similarity x)
         (map (\<lambda>d. DocHit d (real (lexical_score (lower query) d) / 10))
            (filter (\<lambda>d. 0 < lexical_score (lower query) d) (map snd (cache dc)))))"
    by (rule simple_search_eq)
  show "descending (map similarity (simple_search dc query limit))"
    by (rule simple_search_descending)
  show "search_documents None dash argsort query limit dc
       = (Inr (simple_search dc query limit), dc)"
    by (rule search_documents_None)
next
  assume "0 \<le> limit"
  then show "int (length (simple_search dc query limit)) \<le> limit"
    unfolding simple_search_eq by (rule length_slice_to)
next
  assume a: "cache dc = [(u, d)] \<and> title d = ''Auth Guide''
        \<and> \<not> contains (lower (description d)) (lower ''Auth'')
        \<and> str_count (lower (content d)) (lower ''Auth'') = 2 \<and> 1 \<le> limit"
  have t: "contains (lower ''Auth Guide'') (lower ''Auth'')" by code_simp
  from a t have sc: "lexical_score (lower ''Auth'') d = 5"
    by (simp add: lexical_score_eq lexical_score_spec_def)
  from a have "simple_search dc ''Auth'' limit
      = [DocHit d (real (lexical_score (lower ''Auth'') d) / 10)]"
    by (intro simple_search_single) (simp_all add: sc)
  then show "simple_search dc ''Auth'' limit = [DocHit d 0.5]"
    by (simp add: sc)
qed

text \<open>
  C8, as stated: the score counts the query as a substring of the title, the description
  and the content. On the code the comparison ignores case: the query \<open>auth\<close> is no
  substring of the title or content below, and the document is found with similarity 0.5.
\<close>

theorem case_sensitive_counterexample:
  "lexical_score_spec ''auth'' ''Auth Guide'' [] ''see Auth and Auth'' = 0
   \<and> simple_search
        \<lparr>cache = [(''u'', \<lparr>url = ''u'', markdown_url = ''u.md'', title = ''Auth Guide'',
                           description = [], content = ''see Auth and Auth'',
                           raw_content = ''---'' @ [LF] @ ''title: Auth Guide'' @ [LF] @ ''---'' @ [LF] @ ''see Auth and Auth'',
                  chunks_of = [\<lparr>heading = [], markdown = ''see Auth and Auth''\<rparr>]\<rparr>)],
          embeddings = None, documents = []\<rparr> ''auth'' 5
      = [DocHit \<lparr>url = ''u'', markdown_url = ''u.md'', title = ''Auth Guide'',
                  description = [], content = ''see Auth and Auth'',
                  raw_content = ''---'' @ [LF] @ ''title: Auth Guide'' @ [LF] @ ''---'' @ [LF] @ ''see Auth and Auth'',
                  chunks_of = [\<lparr>heading = [], markdown = ''see Auth and Auth''\<rparr>]\<rparr> 0.5]"
  by code_simp

theorem lexical_fallback_scoring_witness:
  "fst (store_document ''u'' ''u.md''
          (''---'' @ [LF] @ ''title: Auth Guide'' @ [LF] @ ''---'' @ [LF] @ ''see Auth and Auth'')
          \<lparr>cache = [], embeddings = None, documents = []\<rparr>)
     = \<lparr>url = ''u'', markdown_url = ''u.md'', title = ''Auth Guide'', description = [],
         content = ''see Auth and Auth'',
         raw_content = ''---'' @ [LF] @ ''title: Auth Guide'' @ [LF] @ ''---'' @ [LF] @ ''see Auth and Auth'',
         chunks_of = [\<lparr>heading = [], markdown = ''see Auth and Auth''\<rparr>]\<rparr>
   \<and> simple_search
        \<lparr>cache = [(''u'', \<lparr>url = ''u'', markdown_url = ''u.md'', title = ''Auth Guide'', description = [],
             content = ''see Auth and Auth'',
             raw_content = ''---'' @ [LF] @ ''title: Auth Guide'' @ [LF] @ ''---'' @ [LF] @ ''see Auth and Auth'',
             chunks_of = [\<lparr>heading = [], markdown = ''see Auth and Auth''\<rparr>]\<rparr>)],
          embeddings = None, documents = []\<rparr> ''Auth'' 5
     = [DocHit \<lparr>url = ''u'', markdown_url = ''u.md'', title = ''Auth Guide'', description = [],
             content = ''see Auth and Auth'',
             raw_content = ''---'' @ [LF] @ ''title: Auth Guide'' @ [LF] @ ''---'' @ [LF] @ ''see Auth and Auth'',
             chunks_of = [\<lparr>heading = [], markdown = ''see Auth and Auth''\<rparr>]\<rparr> 0.5]
   \<and> int (length (simple_search
        \<lparr>cache = [(''u'', \<lparr>url = ''u'', markdown_url = ''u.md'', title = ''Auth Guide'', description = [],
             content = ''see Auth and Auth'',
             raw_content = ''---'' @ [LF] @ ''title: Auth Guide'' @ [LF] @ ''---'' @ [LF] @ ''see Auth and Auth'',
             chunks_of = [\<lparr>heading = [], markdown = ''see Auth and Auth''\<rparr>]\<rparr>)],
          embeddings = None, documents = []\<rparr> ''Auth'' 5)) \<le> 5"
proof -
  let ?d = "\<lparr>url = ''u'', markdown_url = ''u.md'', title = ''Auth Guide'', description = [],
             content = ''see Auth and Auth'',
             raw_content = ''---'' @ [LF] @ ''title: Auth Guide'' @ [LF] @ ''---'' @ [LF] @ ''see Auth and Auth'',
             chunks_of = [\<lparr>heading = [], markdown = ''see Auth and Auth''\<rparr>]\<rparr>"
  let ?dc = "\<lparr>cache = [(''u'', ?d)], embeddings = None, documents = []\<rparr>"
  have st: "fst (store_document ''u'' ''u.md''
          (''---'' @ [LF] @ ''title: Auth Guide'' @ [LF] @ ''---'' @ [LF] @ ''see Auth and Auth'')
          \<lparr>cache = [], embeddings = None, documents = []\<rparr>) = ?d"
    by code_simp
  have h1: "\<not> contains (lower []) (lower ''Auth'')" by code_simp
  have h2: "str_count (lower ''see Auth and Auth'') (lower ''Auth'') = 2" by code_simp
  have hyp: "cache ?dc = [(''u'', ?d)] \<and> title ?d = ''Auth Guide''
        \<and> \<not> contains (lower (description ?d)) (lower ''Auth'')
        \<and> str_count (lower (content ?d)) (lower ''Auth'') = 2 \<and> (1::int) \<le> 5"
    using h1 h2 by simp
  from lexical_fallback_scoring[of _ ?d ?dc 5 _ _ "''u''", THEN conjunct2, THEN conjunct2,
         THEN conjunct2, THEN conjunct2, THEN conjunct2, THEN mp, OF hyp]
  have res: "simple_search ?dc ''Auth'' 5 = [DocHit ?d 0.5]" .
  have "(0::int) \<le> 5" by simp
  from lexical_fallback_scoring[of "''Auth''" _ ?dc 5, THEN conjunct2, THEN conjunct2,
         THEN conjunct2, THEN conjunct1, THEN mp, OF this]
  have len: "int (length (simple_search ?dc ''Auth'' 5)) \<le> 5" .
  show ?thesis by (intro conjI) (rule st res len)+
qed

lemma simple_search_length:
  "0 \<le> limit \<Longrightarrow> int (length (simple_search dc query limit)) \<le> limit"
  unfolding simple_search_eq by (rule length_slice_to)

lemma collect_hits_similarity:
  "collect_hits docs sims idxs = Inr rs \<Longrightarrow> map similarity rs = map (\<lambda>i. sims ! i) idxs"
  by (induction idxs arbitrary: rs) (auto split: if_splits sum.splits)

lemma collect_hits_total:
  "\<forall>i \<in> set idxs. i < length docs \<and> i < length sims \<Longrightarrow>
   \<exists>rs. collect_hits docs sims idxs = Inr rs"
  by (induction idxs) auto

lemma descending_rev_argsort:
  assumes "argsort_ok argsort"
  shows "descending (map (\<lambda>i. sims ! i) (rev (argsort sims)))"
proof -
  from assms have "sorted (map (\<lambda>i. sims ! i) (argsort sims))"
    by (simp add: argsort_ok_def)
  then have "sorted_wrt (\<lambda>a b. b \<le> a) (rev (map (\<lambda>i. sims ! i) (argsort sims)))"
    by (simp add: sorted_wrt_rev)
  then show ?thesis by (simp add: descending_def rev_map)
qed

lemma set_slice_to: "set (slice_to k xs) \<subseteq> set xs"
  using slice_to_take[of k xs] by (auto dest: in_set_takeD)

lemma index_ok_build:
  assumes "encoder_ok m" "\<not> has_embeddings dc"
  shows "index_ok (build_embeddings m et dc) \<or> \<not> has_embeddings (build_embeddings m et dc)"
proof (cases m)
  case None
  with assms(2) show ?thesis by (simp add: build_embeddings_def)
next
  case (Some encode)
  with assms(1) have len: "length (encode ts) = length ts" for ts
    by (simp add: encoder_ok_def)
  show ?thesis
    using assms(2) Some
    by (auto simp: build_embeddings_def Let_def index_ok_def len)
qed

lemma search_vector:
  assumes "embeddings dc = Some emb" "has_embeddings dc"
  shows "search_documents (Some encode) et argsort q limit dc =
     (collect_hits (documents dc) (map (\<lambda>e. dot e (concat (encode [q]))) emb)
        (slice_to limit (rev (argsort (map (\<lambda>e. dot e (concat (encode [q]))) emb)))), dc)"
  using assms by (simp add: search_documents_def Let_def)

lemma search_cases:
  "search_documents m et argsort q limit dc0 = (r, dc) \<Longrightarrow>
   dc = (if \<not> has_embeddings dc0 then build_embeddings m et dc0 else dc0)
   \<and> (r = Inr (simple_search dc q limit)
      \<or> (\<exists>emb encode. m = Some encode \<and> embeddings dc = Some emb \<and> has_embeddings dc \<and>
           r = collect_hits (documents dc) (map (\<lambda>e. dot e (concat (encode [q]))) emb)
                 (slice_to limit (rev (argsort (map (\<lambda>e. dot e (concat (encode [q]))) emb))))))"
  by (auto simp: search_documents_def Let_def split: option.splits if_splits)

lemma argsort_ok_stable: "argsort_ok stable_argsort"
  unfolding argsort_ok_def stable_argsort_def
proof (intro allI conjI)
  fix xs :: "real list"
  show "distinct (sort_key (\<lambda>i. xs ! i) [0..<length xs])" by simp
  show "set (sort_key (\<lambda>i. xs ! i) [0..<length xs]) = {0..<length xs}" by simp
  show "sorted (map (\<lambda>i. xs ! i) (sort_key (\<lambda>i. xs ! i) [0..<length xs]))"
    by (rule sorted_sort_key)
qed

text \<open>
  C5 (ranking order and limit), amended. The similarities of the results of
  \<open>search_documents\<close> are non-increasing in result order for every limit, and there are
  at most \<open>limit\<close> results when \<open>limit\<close> is not negative, on the vector path and on
  the lexical path. The search returns its results (no index error) when the index is a
  pair of parallel arrays and the encoder gives one vector per text, and always without
  an embedding model.
\<close>

theorem ranking_order_and_limit:
  "argsort_ok argsort \<Longrightarrow>
   search_documents embedding_model dash argsort query limit dc = (r, dc1) \<Longrightarrow>
   (\<forall>rs. r = Inr rs \<longrightarrow>
      descending (map similarity rs) \<and> (0 \<le> limit \<longrightarrow> int (length rs) \<le> limit))
   \<and> (index_ok dc \<and> encoder_ok embedding_model \<longrightarrow> (\<exists>rs. r = Inr rs))
   \<and> (embedding_model = None \<longrightarrow> r = Inr (simple_search dc query limit))"
proof -
  assume ok: "argsort_ok argsort"
    and s: "search_documents embedding_model dash argsort query limit dc = (r, dc1)"
  note sc = search_cases[OF s]
  have lex: "descending (map similarity (simple_search dc1 query limit))
      \<and> (0 \<le> limit \<longrightarrow> int (length (simple_search dc1 query limit)) \<le> limit)"
    using simple_search_descending[of dc1 query limit]
      simple_search_length[of limit dc1 query] by simp
  have part1: "\<forall>rs. r = Inr rs \<longrightarrow>
      descending (map similarity rs) \<and> (0 \<le> limit \<longrightarrow> int (length rs) \<le> limit)"
  proof (intro allI impI)
    fix rs assume r: "r = Inr rs"
    from sc consider (lexical) "r = Inr (simple_search dc1 query limit)"
      | (vector) emb encode where "embeddings dc1 = Some emb"
          "r = collect_hits (documents dc1) (map (\<lambda>e. dot e (concat (encode [query]))) emb)
                 (slice_to limit (rev (argsort (map (\<lambda>e. dot e (concat (encode [query]))) emb))))"
      by blast
    then show "descending (map similarity rs) \<and> (0 \<le> limit \<longrightarrow> int (length rs) \<le> limit)"
    proof cases
      case lexical
      with r lex show ?thesis by simp
    next
      case vector
      let ?sims = "map (\<lambda>e. dot e (concat (encode [query]))) emb"
      let ?idxs = "slice_to limit (rev (argsort ?sims))"
      from vector(2) r have c: "collect_hits (documents dc1) ?sims ?idxs = Inr rs" by simp
      from collect_hits_similarity[OF c]
      have m: "map similarity rs = slice_to limit (map (\<lambda>i. ?sims ! i) (rev (argsort ?sims)))"
        by (simp add: map_slice_to)
      have d: "descending (map similarity rs)"
        unfolding m by (intro descending_slice_to descending_rev_argsort ok)
      from m have "length rs = length (slice_to limit (map (\<lambda>i. ?sims ! i) (rev (argsort ?sims))))"
        by (metis length_map)
      with length_slice_to[of limit "map (\<lambda>i. ?sims ! i) (rev (argsort ?sims))"]
      have "0 \<le> limit \<longrightarrow> int (length rs) \<le> limit" by simp
      with d show ?thesis by simp
    qed
  qed
  have part2: "index_ok dc \<and> encoder_ok embedding_model \<longrightarrow> (\<exists>rs. r = Inr rs)"
  proof
    assume a: "index_ok dc \<and> encoder_ok embedding_model"
    from sc consider (lexical) "r = Inr (simple_search dc1 query limit)"
      | (vector) emb encode where "embeddings dc1 = Some emb" "has_embeddings dc1"
          "r = collect_hits (documents dc1) (map (\<lambda>e. dot e (concat (encode [query]))) emb)
                 (slice_to limit (rev (argsort (map (\<lambda>e. dot e (concat (encode [query]))) emb))))"
      by blast
    then show "\<exists>rs. r = Inr rs"
    proof cases
      case lexical
      then show ?thesis by simp
    next
      case vector
      let ?sims = "map (\<lambda>e. dot e (concat (encode [query]))) emb"
      have "index_ok dc1"
      proof (cases "has_embeddings dc")
        case True
        with sc a show ?thesis by simp
      next
        case False
        with sc have "dc1 = build_embeddings embedding_model dash dc" by simp
        with index_ok_build[of embedding_model dc dash] a False vector(2)
        show ?thesis by simp
      qed
      with vector(1) have len: "length emb = length (documents dc1)"
        by (simp add: index_ok_def)
      have "set (slice_to limit (rev (argsort ?sims))) \<subseteq> {0..<length ?sims}"
        using set_slice_to[of limit "rev (argsort ?sims)"] ok
        by (simp add: argsort_ok_def)
      then have "\<forall>i \<in> set (slice_to limit (rev (argsort ?sims))).
                   i < length (documents dc1) \<and> i < length ?sims"
        using len by auto
      from collect_hits_total[OF this] vector(3) show ?thesis by simp
    qed
  qed
  have part3: "embedding_model = None \<longrightarrow> r = Inr (simple_search dc query limit)"
    using s by (auto simp: search_documents_None)
  from part1 part2 part3 show ?thesis by blast
qed


text \<open>
  C5, as stated: at most \<open>limit\<close> results for every limit. With the limit \<open>-1\<close> the
  slice \<open>[:limit]\<close> drops the last of two results and one result is returned.
\<close>

theorem negative_limit_counterexample:
  "search_documents None ''-'' (\<lambda>xs. []) ''auth'' (- 1)
     \<lparr>cache = [(''u'', \<lparr>url = ''u'', markdown_url = ''u.md'', title = ''Auth Guide'', description = [],
                        content = ''see Auth and Auth'',
                        raw_content = ''---'' @ [LF] @ ''title: Auth Guide'' @ [LF] @ ''---'' @ [LF] @ ''see Auth and Auth'',
                        chunks_of = [\<lparr>heading = [], markdown = ''see Auth and Auth''\<rparr>]\<rparr>),
               (''v'', \<lparr>url = ''v'', markdown_url = ''v.md'', title = ''Untitled'', description = [],
                        content = ''no auth'', raw_content = ''no auth'',
                        chunks_of = [\<lparr>heading = [], markdown = ''no auth''\<rparr>]\<rparr>)],
       embeddings = None, documents = []\<rparr>
   = (Inr [DocHit \<lparr>url = ''u'', markdown_url = ''u.md'', title = ''Auth Guide'', description = [],
                    content = ''see Auth and Auth'',
                        raw_content = ''---'' @ [LF] @ ''title: Auth Guide'' @ [LF] @ ''---'' @ [LF] @ ''see Auth and Auth'',
                    chunks_of = [\<lparr>heading = [], markdown = ''see Auth and Auth''\<rparr>]\<rparr> 0.5],
      \<lparr>cache = [(''u'', \<lparr>url = ''u'', markdown_url = ''u.md'', title = ''Auth Guide'', description = [],
                        content = ''see Auth and Auth'',
                        raw_content = ''---'' @ [LF] @ ''title: Auth Guide'' @ [LF] @ ''---'' @ [LF] @ ''see Auth and Auth'',
                        chunks_of = [\<lparr>heading = [], markdown = ''see Auth and Auth''\<rparr>]\<rparr>),
               (''v'', \<lparr>url = ''v'', markdown_url = ''v.md'', title = ''Untitled'', description = [],
                        content = ''no auth'', raw_content = ''no auth'',
                        chunks_of = [\<lparr>heading = [], markdown = ''no auth''\<rparr>]\<rparr>)],
       embeddings = None, documents = []\<rparr>)
   \<and> \<not> int (length [DocHit \<lparr>url = ''u'', markdown_url = ''u.md'', title = ''Auth Guide'', description = [],
                    content = ''see Auth and Auth'',
                        raw_content = ''---'' @ [LF] @ ''title: Auth Guide'' @ [LF] @ ''---'' @ [LF] @ ''see Auth and Auth'',
                    chunks_of = [\<lparr>heading = [], markdown = ''see Auth and Auth''\<rparr>]\<rparr> 0.5]) \<le> - 1"
  by code_simp

theorem ranking_order_and_limit_witness:
  "argsort_ok stable_argsort
   \<and> fst (search_documents (Some (\<lambda>ts. map (\<lambda>t. [real (length t)]) ts)) ''-''
            stable_argsort ''ab'' 1
            \<lparr>cache = [(''u'', \<lparr>url = ''u'', markdown_url = ''u.md'', title = ''A'', description = [],
                        content = ''# A'' @ [LF] @ ''x'' @ [LF] @ ''## B'' @ [LF] @ ''yyy'',
                        raw_content = ''# A'' @ [LF] @ ''x'' @ [LF] @ ''## B'' @ [LF] @ ''yyy'',
                        chunks_of = [\<lparr>heading = ''A'', markdown = ''# A'' @ [LF] @ ''x''\<rparr>,
                                     \<lparr>heading = ''B'', markdown = ''## B'' @ [LF] @ ''yyy''\<rparr>]\<rparr>)],
              embeddings = None, documents = []\<rparr>)
     = Inr [ChunkHit \<lparr>e_url = ''u'', e_markdown_url = ''u.md'', e_title = ''A'', e_heading = ''B'',
                      e_snippet = ''## B'' @ [LF] @ ''yyy''\<rparr> 22]
   \<and> descending (map similarity
         [ChunkHit \<lparr>e_url = ''u'', e_markdown_url = ''u.md'', e_title = ''A'', e_heading = ''B'',
                      e_snippet = ''## B'' @ [LF] @ ''yyy''\<rparr> 22])
   \<and> int (length
         [ChunkHit \<lparr>e_url = ''u'', e_markdown_url = ''u.md'', e_title = ''A'', e_heading = ''B'',
                      e_snippet = ''## B'' @ [LF] @ ''yyy''\<rparr> 22]) \<le> 1
   \<and> index_ok
         \<lparr>cache = [(''u'', \<lparr>url = ''u'', markdown_url = ''u.md'', title = ''A'', description = [],
                        content = ''# A'' @ [LF] @ ''x'' @ [LF] @ ''## B'' @ [LF] @ ''yyy'',
                        raw_content = ''# A'' @ [LF] @ ''x'' @ [LF] @ ''## B'' @ [LF] @ ''yyy'',
                        chunks_of = [\<lparr>heading = ''A'', markdown = ''# A'' @ [LF] @ ''x''\<rparr>,
                                     \<lparr>heading = ''B'', markdown = ''## B'' @ [LF] @ ''yyy''\<rparr>]\<rparr>)],
              embeddings = None, documents = []\<rparr>
   \<and> encoder_ok (Some (\<lambda>ts. map (\<lambda>t. [real (length t)]) ts))
   \<and> fst (search_documents None ''-'' stable_argsort ''ab'' 1
            \<lparr>cache = [(''u'', \<lparr>url = ''u'', markdown_url = ''u.md'', title = ''A'', description = [],
                        content = ''# A'' @ [LF] @ ''x'' @ [LF] @ ''## B'' @ [LF] @ ''yyy'',
                        raw_content = ''# A'' @ [LF] @ ''x'' @ [LF] @ ''## B'' @ [LF] @ ''yyy'',
                        chunks_of = [\<lparr>heading = ''A'', markdown = ''# A'' @ [LF] @ ''x''\<rparr>,
                                     \<lparr>heading = ''B'', markdown = ''## B'' @ [LF] @ ''yyy''\<rparr>]\<rparr>)],
              embeddings = None, documents = []\<rparr>)
       = Inr (simple_search
            \<lparr>cache = [(''u'', \<lparr>url = ''u'', markdown_url = ''u.md'', title = ''A'', description = [],
                        content = ''# A'' @ [LF] @ ''x'' @ [LF] @ ''## B'' @ [LF] @ ''yyy'',
                        raw_content = ''# A'' @ [LF] @ ''x'' @ [LF] @ ''## B'' @ [LF] @ ''yyy'',
                        chunks_of = [\<lparr>heading = ''A'', markdown = ''# A'' @ [LF] @ ''x''\<rparr>,
                                     \<lparr>heading = ''B'', markdown = ''## B'' @ [LF] @ ''yyy''\<rparr>]\<rparr>)],
              embeddings = None, documents = []\<rparr> ''ab'' 1)"
proof -
  let ?enc = "\<lambda>ts::string list. map (\<lambda>t. [real (length t)]) ts"
  let ?et = "''-''"
  let ?dc = "\<lparr>cache = [(''u'', \<lparr>url = ''u'', markdown_url = ''u.md'', title = ''A'', description = [],
                        content = ''# A'' @ [LF] @ ''x'' @ [LF] @ ''## B'' @ [LF] @ ''yyy'',
                        raw_content = ''# A'' @ [LF] @ ''x'' @ [LF] @ ''## B'' @ [LF] @ ''yyy'',
                        chunks_of = [\<lparr>heading = ''A'', markdown = ''# A'' @ [LF] @ ''x''\<rparr>,
                                     \<lparr>heading = ''B'', markdown = ''## B'' @ [LF] @ ''yyy''\<rparr>]\<rparr>)],
              embeddings = None, documents = []\<rparr>"
  let ?rs = "[ChunkHit \<lparr>e_url = ''u'', e_markdown_url = ''u.md'', e_title = ''A'', e_heading = ''B'',
                      e_snippet = ''## B'' @ [LF] @ ''yyy''\<rparr> 22]"
  have run: "fst (search_documents (Some ?enc) ?et stable_argsort ''ab'' 1 ?dc) = Inr ?rs"
    by code_simp
  have s: "search_documents (Some ?enc) ?et stable_argsort ''ab'' 1 ?dc
      = (Inr ?rs, snd (search_documents (Some ?enc) ?et stable_argsort ''ab'' 1 ?dc))"
    using run by (metis prod.collapse)
  note th = ranking_order_and_limit[OF argsort_ok_stable s]
  from th have d: "descending (map similarity ?rs) \<and> int (length ?rs) \<le> 1" by simp
  have ok: "index_ok ?dc \<and> encoder_ok (Some ?enc)"
    by (simp add: encoder_ok_def index_ok_def)
  from th ok have ret: "\<exists>rs. (Inr ?rs :: exn + hit list) = Inr rs" by blast
  have lex: "search_documents None ?et stable_argsort ''ab'' 1 ?dc
      = (fst (search_documents None ?et stable_argsort ''ab'' 1 ?dc),
         snd (search_documents None ?et stable_argsort ''ab'' 1 ?dc))" by simp
  from ranking_order_and_limit[OF argsort_ok_stable lex]
  have fb: "fst (search_documents None ?et stable_argsort ''ab'' 1 ?dc)
      = Inr (simple_search ?dc ''ab'' 1)" by simp
  from argsort_ok_stable run d ok fb show ?thesis by (intro conjI) simp_all
qed


section \<open>Properties of answer_question\<close>

lemma foldl_max_Max: "foldl max (x::real) xs = Max (set (x # xs))"
proof -
  have "foldl max x xs = fold max xs x"
    by (simp add: foldl_conv_fold max.commute)
  also have "\<dots> = Max (set (x # xs))"
    by (rule Max.set_eq_fold[symmetric])
  finally show ?thesis .
qed

lemma answer_question_None:
  "\<exists>a. answer_question None dash argsort question dc = (Inr a, dc)
       \<and> confidence a = (case map similarity (simple_search dc question 3) of
                           [] \<Rightarrow> 0
                         | x # xs \<Rightarrow> Max (set (x # xs)))"
proof (cases "simple_search dc question 3")
  case Nil
  then show ?thesis
    by (simp add: answer_question_def search_documents_None)
next
  case (Cons h hs)
  then show ?thesis
    by (simp add: answer_question_def search_documents_None Let_def foldl_max_Max)
qed

lemma descending_hd:
  "descending (x # xs) \<Longrightarrow> y \<in> set (x # xs) \<Longrightarrow> y \<le> x"
  by (auto simp: descending_def)

lemma simple_search_top:
  assumes "(u, d) \<in> set (cache dc)" "0 < lexical_score (lower q) d" "1 \<le> limit"
  shows "\<exists>h hs. simple_search dc q limit = h # hs
           \<and> real (lexical_score (lower q) d) / 10 \<le> similarity h"
proof -
  let ?hit = "\<lambda>d. DocHit d (real (lexical_score (lower q) d) / 10)"
  let ?L = "sort_key (\<lambda>x. - similarity x)
       (map ?hit (filter (\<lambda>d. 0 < lexical_score (lower q) d) (map snd (cache dc))))"
  from assms(1,2) have "?hit d \<in> set ?L" by force
  then obtain h hs where L: "?L = h # hs" by (cases ?L) auto
  have "descending (map similarity ?L)" by (rule descending_sort_key)
  with L have "descending (similarity h # map similarity hs)" by simp
  moreover from \<open>?hit d \<in> set ?L\<close> L have "similarity (?hit d) \<in> set (similarity h # map similarity hs)"
    by (metis list.set_map list.simps(9) imageI)
  ultimately have "similarity (?hit d) \<le> similarity h" by (rule descending_hd)
  moreover have "simple_search dc q limit = h # slice_to (limit - 1) hs"
    using assms(3) L unfolding simple_search_eq
    by (simp add: slice_to_def take_Cons' nat_diff_distrib')
  ultimately show ?thesis by auto
qed

text \<open>
  C10 (the lexical similarity is not bounded by 1). Without an embedding model the
  confidence of an answer is the greatest similarity among the first three results of
  the lexical search, 0 when there is none. When the content of a stored document holds
  the query 11 times or more, a result of the search has a similarity above 1 and the
  confidence of the answer is above 1.
\<close>

theorem lexical_similarity_unbounded:
  "(\<exists>a. answer_question None dash argsort question dc = (Inr a, dc)
       \<and> confidence a = (case map similarity (simple_search dc question 3) of
                           [] \<Rightarrow> 0
                         | x # xs \<Rightarrow> Max (set (x # xs))))
   \<and> ((u, d) \<in> set (cache dc) \<and> 11 \<le> str_count (lower (content d)) (lower question) \<longrightarrow>
        (\<exists>h \<in> set (simple_search dc question 3). 1 < similarity h)
        \<and> (\<exists>a. answer_question None dash argsort question dc = (Inr a, dc)
               \<and> 1 < confidence a))"
proof (intro conjI impI)
  show g: "\<exists>a. answer_question None dash argsort question dc = (Inr a, dc)
       \<and> confidence a = (case map similarity (simple_search dc question 3) of
                           [] \<Rightarrow> 0
                         | x # xs \<Rightarrow> Max (set (x # xs)))"
    by (rule answer_question_None)
  assume a: "(u, d) \<in> set (cache dc) \<and> 11 \<le> str_count (lower (content d)) (lower question)"
  then have sc: "11 \<le> lexical_score (lower question) d"
    by (simp add: lexical_score_eq lexical_score_spec_def)
  with a simple_search_top[of u d dc question 3]
  obtain h hs where h: "simple_search dc question 3 = h # hs"
    "real (lexical_score (lower question) d) / 10 \<le> similarity h"
    by auto
  from sc have "(1::real) < real (lexical_score (lower question) d) / 10" by simp
  with h(2) have big: "1 < similarity h" by simp
  with h(1) show "\<exists>h \<in> set (simple_search dc question 3). 1 < similarity h" by auto
  from g obtain a where a: "answer_question None dash argsort question dc = (Inr a, dc)"
    "confidence a = Max (set (similarity h # map similarity hs))"
    using h(1) by auto
  have "similarity h \<le> Max (set (similarity h # map similarity hs))"
    by (intro Max_ge) simp_all
  with big have "1 < Max (set (similarity h # map similarity hs))" by linarith
  with a show "\<exists>a. answer_question None dash argsort question dc = (Inr a, dc)
               \<and> 1 < confidence a"
    by auto
qed

theorem lexical_similarity_unbounded_witness:
  "(''u'', \<lparr>url = ''u'', markdown_url = ''u.md'', title = ''Untitled'', description = [],
            content = ''aaaaaaaaaaa'', raw_content = ''aaaaaaaaaaa'',
            chunks_of = [\<lparr>heading = [], markdown = ''aaaaaaaaaaa''\<rparr>]\<rparr>)
     \<in> set (cache \<lparr>cache = [(''u'', \<lparr>url = ''u'', markdown_url = ''u.md'', title = ''Untitled'',
                       description = [], content = ''aaaaaaaaaaa'', raw_content = ''aaaaaaaaaaa'',
                       chunks_of = [\<lparr>heading = [], markdown = ''aaaaaaaaaaa''\<rparr>]\<rparr>)],
                    embeddings = None, documents = []\<rparr>)
   \<and> 11 \<le> str_count (lower ''aaaaaaaaaaa'') (lower ''a'')
   \<and> simple_search \<lparr>cache = [(''u'', \<lparr>url = ''u'', markdown_url = ''u.md'', title = ''Untitled'',
                       description = [], content = ''aaaaaaaaaaa'', raw_content = ''aaaaaaaaaaa'',
                       chunks_of = [\<lparr>heading = [], markdown = ''aaaaaaaaaaa''\<rparr>]\<rparr>)],
                    embeddings = None, documents = []\<rparr> ''a'' 3
       = [DocHit \<lparr>url = ''u'', markdown_url = ''u.md'', title = ''Untitled'',
                       description = [], content = ''aaaaaaaaaaa'', raw_content = ''aaaaaaaaaaa'',
                       chunks_of = [\<lparr>heading = [], markdown = ''aaaaaaaaaaa''\<rparr>]\<rparr> 1.1]
   \<and> (\<exists>a. answer_question None ''-'' (\<lambda>xs. []) ''a''
              \<lparr>cache = [(''u'', \<lparr>url = ''u'', markdown_url = ''u.md'', title = ''Untitled'',
                       description = [], content = ''aaaaaaaaaaa'', raw_content = ''aaaaaaaaaaa'',
                       chunks_of = [\<lparr>heading = [], markdown = ''aaaaaaaaaaa''\<rparr>]\<rparr>)],
                    embeddings = None, documents = []\<rparr>
            = (Inr a, \<lparr>cache = [(''u'', \<lparr>url = ''u'', markdown_url = ''u.md'', title = ''Untitled'',
                       description = [], content = ''aaaaaaaaaaa'', raw_content = ''aaaaaaaaaaa'',
                       chunks_of = [\<lparr>heading = [], markdown = ''aaaaaaaaaaa''\<rparr>]\<rparr>)],
                    embeddings = None, documents = []\<rparr>)
          \<and> 1 < confidence a)"
proof -
  let ?d = "\<lparr>url = ''u'', markdown_url = ''u.md'', title = ''Untitled'',
                       description = [], content = ''aaaaaaaaaaa'', raw_content = ''aaaaaaaaaaa'',
                       chunks_of = [\<lparr>heading = [], markdown = ''aaaaaaaaaaa''\<rparr>]\<rparr>"
  let ?dc = "\<lparr>cache = [(''u'', ?d)], embeddings = None, documents = []\<rparr>"
  have m: "(''u'', ?d) \<in> set (cache ?dc)" by simp
  have c: "11 \<le> str_count (lower ''aaaaaaaaaaa'') (lower ''a'')" by code_simp
  have s: "simple_search ?dc ''a'' 3 = [DocHit ?d 1.1]" by code_simp
  from m c have hyp: "(''u'', ?d) \<in> set (cache ?dc) \<and> 11 \<le> str_count (lower (content ?d)) (lower ''a'')"
    by simp
  from lexical_similarity_unbounded[of "''-''" "\<lambda>xs. []" "''a''" ?dc "''u''" ?d,
          THEN conjunct2, THEN mp, OF hyp, THEN conjunct2]
  have "\<exists>a. answer_question None ''-'' (\<lambda>xs. []) ''a'' ?dc = (Inr a, ?dc) \<and> 1 < confidence a" .
  with m c s show ?thesis by (intro conjI)
qed

end
